theory Spec2Isabelle
  imports Complex_Main
begin

section \<open>Numbers and geometry shared by the components\<close>

text \<open>
  In the bearings and in the distances by which the geocoders choose among candidates,
  a JavaScript \<^verbatim>\<open>number\<close> is modelled by the real number it denotes, and
  \<^verbatim>\<open>Math.sin\<close>, \<^verbatim>\<open>Math.cos\<close>, \<^verbatim>\<open>Math.sqrt\<close>, \<^verbatim>\<open>Math.atan2\<close> and \<^verbatim>\<open>Math.PI\<close> by the
  exact functions and constant; rounding error, NaN, infinities and the sign of zero are
  outside the model there.
\<close>

text \<open>\<^verbatim>\<open>Math.atan2(y, x)\<close>: the angle of the point \<open>(x, y)\<close>, in \<open>(-pi, pi]\<close>.\<close>

definition atan2 :: "real \<Rightarrow> real \<Rightarrow> real" where
  "atan2 y x =
     (if 0 < x then arctan (y / x)
      else if x < 0 then (if 0 \<le> y then arctan (y / x) + pi else arctan (y / x) - pi)
      else if 0 < y then pi / 2
      else if y < 0 then - (pi / 2)
      else 0)"

text \<open>The \<^verbatim>\<open>%\<close> operator on numbers: the remainder has the sign of the dividend.\<close>

definition js_rem :: "real \<Rightarrow> real \<Rightarrow> real" where
  "js_rem a b = a - b * of_int (if 0 \<le> a / b then \<lfloor>a / b\<rfloor> else \<lceil>a / b\<rceil>)"

text \<open>
  Where rounding decides what the code does, in the worker's distance filter, the
  arithmetic is a parameter of the model. \<open>rnd\<close> gives the number that the exact result
  of \<^verbatim>\<open>+\<close>, \<^verbatim>\<open>-\<close>, \<^verbatim>\<open>*\<close> or \<^verbatim>\<open>/\<close> becomes; the other fields are the members
  of \<^verbatim>\<open>Math\<close> on numbers that are not NaN.
\<close>

record arith =
  rnd :: "real \<Rightarrow> real"
  Math_PI :: real
  Math_sin :: "real \<Rightarrow> real"
  Math_cos :: "real \<Rightarrow> real"
  Math_sqrt :: "real \<Rightarrow> real"
  Math_atan2 :: "real \<Rightarrow> real \<Rightarrow> real"

text \<open>Arithmetic without rounding.\<close>

definition exactArith :: arith where
  "exactArith =
     \<lparr>rnd = (\<lambda>x. x), Math_PI = pi, Math_sin = sin, Math_cos = cos, Math_sqrt = sqrt,
      Math_atan2 = atan2\<rparr>"

text \<open>
  IEEE 754 double precision, as ECMAScript prescribes for numbers. \<open>pow2 e\<close> is the power
  of 2 with the exponent \<open>e\<close>. \<open>roundEven\<close> is the nearest integer, the even one of two
  equally near. \<open>binade x\<close> is the exponent \<open>e\<close> with \<open>pow2 e \<le> |x| < pow2 (e + 1)\<close>, not
  below that of the smallest normal number. \<open>fl x\<close> is the double nearest to \<open>x\<close>: the
  nearest multiple of \<open>pow2 (e - 52)\<close>. Magnitudes that round to an infinity
  (\<open>pow2 1024\<close> and just below) are outside the model.
\<close>

definition pow2 :: "int \<Rightarrow> real" where
  "pow2 e = (if 0 \<le> e then 2 ^ nat e else 1 / 2 ^ nat (- e))"

definition roundEven :: "real \<Rightarrow> int" where
  "roundEven x =
     (let n = \<lfloor>x\<rfloor>; d = x - of_int n
      in if d < 1 / 2 then n else if 1 / 2 < d then n + 1 else if even n then n else n + 1)"

definition binade :: "real \<Rightarrow> int" where
  "binade x = max \<lfloor>log 2 \<bar>x\<bar>\<rfloor> (- 1022)"

definition fl :: "real \<Rightarrow> real" where
  "fl x =
     (if x = 0 then 0
      else of_int (roundEven (x / pow2 (binade x - 52))) * pow2 (binade x - 52))"

text \<open>
  Double-precision arithmetic: every result is rounded by \<open>fl\<close>; \<^verbatim>\<open>Math.PI\<close> is the double
  nearest to \<open>pi\<close>, \<open>884279719003555 / 2 ^ 48\<close>; and the functions of \<^verbatim>\<open>Math\<close>, whose
  approximation ECMAScript leaves to the implementation, return the double nearest to
  the exact value.
\<close>

definition binary64 :: arith where
  "binary64 =
     \<lparr>rnd = fl, Math_PI = 884279719003555 / 2 ^ 48,
      Math_sin = (\<lambda>x. fl (sin x)), Math_cos = (\<lambda>x. fl (cos x)),
      Math_sqrt = (\<lambda>x. fl (sqrt x)), Math_atan2 = (\<lambda>y x. fl (atan2 y x))\<rparr>"

text \<open>An object \<^verbatim>\<open>{lat, lon}\<close>; further fields of the object live in the record's extension.\<close>

record latlon =
  lat :: real
  lon :: real

section \<open>routeWorker.ts: the geometry worker\<close>

subsection \<open>\<^verbatim>\<open>case 'computeArrowBearings'\<close>\<close>

text \<open>An entry \<^verbatim>\<open>{lat, lon, bearing}\<close> of the reply.\<close>

record arrow = latlon +
  bearing :: real

text \<open>
  The body of the loop at index \<open>i\<close>: the bearing from \<open>points[i - 1]\<close> to \<open>points[i]\<close>,
  a point being the array \<^verbatim>\<open>[lat, lon]\<close>.
\<close>

definition arrowAt :: "(real \<times> real) list \<Rightarrow> nat \<Rightarrow> arrow" where
  "arrowAt points i =
     (let lat1 = fst (points ! (i - 1)); lon1 = snd (points ! (i - 1));
          lat2 = fst (points ! i); lon2 = snd (points ! i);
          dLon = (lon2 - lon1) * pi / 180;
          lat1r = lat1 * pi / 180;
          lat2r = lat2 * pi / 180;
          x = sin dLon * cos lat2r;
          y = cos lat1r * sin lat2r - sin lat1r * cos lat2r * cos dLon;
          bearing = js_rem (atan2 x y * 180 / pi + 360) 360
      in \<lparr>lat = lat2, lon = lon2, bearing = bearing\<rparr>)"

text \<open>
  \<^verbatim>\<open>for (var i = step; i < points.length - 1; i += step) { ...; bearings.push(...) }\<close>.
  The source's \<open>step\<close> is never 0; the test \<open>step \<noteq> 0\<close> is here for the termination
  proof only. \<open>points.length - 1\<close> is -1 on the empty array, where the loop does not run
  either.
\<close>

function arrowLoop :: "(real \<times> real) list \<Rightarrow> nat \<Rightarrow> nat \<Rightarrow> arrow list \<Rightarrow> arrow list" where
  "arrowLoop points step i bearings =
     (if step \<noteq> 0 \<and> i < length points - 1
      then arrowLoop points step (i + step) (bearings @ [arrowAt points i])
      else bearings)"
  by pat_completeness auto
termination
  by (relation "measure (\<lambda>(points, step, i, bearings). length points - 1 - i)") auto

definition computeArrowBearings :: "(real \<times> real) list \<Rightarrow> arrow list" where
  "computeArrowBearings points =
     (let step = max 1 (length points div 8)
      in arrowLoop points step step [])"

subsection \<open>\<^verbatim>\<open>case 'filterNoisyGps'\<close>\<close>

text \<open>
  The value \<open>fa\<close> that the loop computes in line for two fixes, every operation in the
  arithmetic \<open>m\<close> and in the source's order: \<^verbatim>\<open>a * b / c\<close> is \<^verbatim>\<open>(a * b) / c\<close>, and the
  product of four factors is taken from the left.
\<close>

definition haversineTerm :: "arith \<Rightarrow> 'a latlon_scheme \<Rightarrow> 'a latlon_scheme \<Rightarrow> real" where
  "haversineTerm m prev cur =
     (let dlat = rnd m (rnd m (rnd m (lat cur - lat prev) * Math_PI m) / 180);
          dlon = rnd m (rnd m (rnd m (lon cur - lon prev) * Math_PI m) / 180)
      in rnd m
           (rnd m (Math_sin m (rnd m (dlat / 2)) * Math_sin m (rnd m (dlat / 2)))
            + rnd m
                (rnd m
                   (rnd m (Math_cos m (rnd m (rnd m (lat prev * Math_PI m) / 180))
                           * Math_cos m (rnd m (rnd m (lat cur * Math_PI m) / 180)))
                    * Math_sin m (rnd m (dlon / 2)))
                 * Math_sin m (rnd m (dlon / 2)))))"

text \<open>
  The distance \<open>dist\<close> in metres,
  \<^verbatim>\<open>Rm * 2 * Math.atan2(Math.sqrt(fa), Math.sqrt(1 - fa))\<close>. \<^verbatim>\<open>Math.sqrt\<close> of a negative
  number is NaN, and NaN goes through \<^verbatim>\<open>Math.atan2\<close> and the product: the distance is
  then NaN, which is \<open>None\<close> here.
\<close>

definition gpsDist :: "arith \<Rightarrow> 'a latlon_scheme \<Rightarrow> 'a latlon_scheme \<Rightarrow> real option" where
  "gpsDist m prev cur =
     (let Rm = 6371000;
          fa = haversineTerm m prev cur
      in if fa < 0 \<or> rnd m (1 - fa) < 0 then None
         else Some (rnd m (rnd m (Rm * 2)
                           * Math_atan2 m (Math_sqrt m fa) (Math_sqrt m (rnd m (1 - fa))))))"

text \<open>\<^verbatim>\<open>dist >= minDist\<close>: false when \<open>dist\<close> is NaN.\<close>

definition js_ge :: "real option \<Rightarrow> real \<Rightarrow> bool" where
  "js_ge v minDist = (case v of None \<Rightarrow> False | Some d \<Rightarrow> minDist \<le> d)"

text \<open>
  \<^verbatim>\<open>for (var k = 1; k < rawPoints.length; k++)\<close>, with
  \<open>prev = filtered[filtered.length - 1]\<close>.
\<close>

function filterLoop ::
  "arith \<Rightarrow> real \<Rightarrow> 'a latlon_scheme list \<Rightarrow> nat \<Rightarrow> 'a latlon_scheme list
     \<Rightarrow> 'a latlon_scheme list" where
  "filterLoop m minDist rawPoints k filtered =
     (if k < length rawPoints
      then (let prev = last filtered;
                cur = rawPoints ! k;
                dist = gpsDist m prev cur
            in filterLoop m minDist rawPoints (k + 1)
                 (if js_ge dist minDist then filtered @ [cur] else filtered))
      else filtered)"
  by pat_completeness auto
termination
  by (relation "measure (\<lambda>(m, minDist, rawPoints, k, filtered). length rawPoints - k)") auto

text \<open>\<open>minDistMeters\<close> is \<open>None\<close> when the message leaves the field \<^verbatim>\<open>undefined\<close>.\<close>

definition filterNoisyGps ::
  "arith \<Rightarrow> 'a latlon_scheme list \<Rightarrow> real option \<Rightarrow> 'a latlon_scheme list" where
  "filterNoisyGps m rawPoints minDistMeters =
     (let minDist = (case minDistMeters of Some d \<Rightarrow> d | None \<Rightarrow> 20);
          filtered = (if length rawPoints \<noteq> 0 then [rawPoints ! 0] else [])
      in filterLoop m minDist rawPoints 1 filtered)"

text \<open>
  The filter in the specification's words. The great-circle distance in metres between
  two fixes is the radius times the angle between them at the centre of the sphere, by
  the spherical law of cosines. The greedy pass keeps the first fix, and each later fix
  when it is far enough from the last kept fix, which it then becomes; the filter is the
  greedy pass in which far enough is a great-circle distance of at least the threshold.
\<close>

definition greatCircle :: "'a latlon_scheme \<Rightarrow> 'a latlon_scheme \<Rightarrow> real" where
  "greatCircle p q =
     6371000 * arccos (sin (lat p * pi / 180) * sin (lat q * pi / 180)
                       + cos (lat p * pi / 180) * cos (lat q * pi / 180)
                         * cos ((lon q - lon p) * pi / 180))"

fun keepFrom :: "('a \<Rightarrow> 'a \<Rightarrow> bool) \<Rightarrow> 'a \<Rightarrow> 'a list \<Rightarrow> 'a list" where
  "keepFrom far lastKept [] = []"
| "keepFrom far lastKept (c # cs) =
     (if far lastKept c then c # keepFrom far c cs else keepFrom far lastKept cs)"

fun greedyPass :: "('a \<Rightarrow> 'a \<Rightarrow> bool) \<Rightarrow> 'a list \<Rightarrow> 'a list" where
  "greedyPass far [] = []"
| "greedyPass far (p # ps) = p # keepFrom far p ps"

definition greedyFilter :: "real \<Rightarrow> 'a latlon_scheme list \<Rightarrow> 'a latlon_scheme list" where
  "greedyFilter d = greedyPass (\<lambda>lastKept c. d \<le> greatCircle lastKept c)"

section \<open>routeCache.ts: the two-tier route cache\<close>

subsection \<open>\<open>makeKey\<close>\<close>

text \<open>
  \<^verbatim>\<open>Number.prototype.toFixed(5)\<close>, by ECMAScript's definition, for a finite number below
  \<open>10^21\<close> in magnitude (every coordinate is): the sign, then the integer \<open>n\<close> nearest to
  \<open>|x| * 10^5\<close> (the larger of two equally near), written in decimal, padded with zeros to
  six digits, with a point before the last five.
\<close>

definition digitChar :: "nat \<Rightarrow> char" where
  "digitChar d = ''0123456789'' ! d"

fun digitsOf :: "nat \<Rightarrow> string" where
  "digitsOf n = (if n < 10 then [] else digitsOf (n div 10)) @ [digitChar (n mod 10)]"

text \<open>The digits of \<open>n\<close> with the point: ECMAScript's steps from \<open>n\<close> to the text.\<close>

definition fixedDigits :: "nat \<Rightarrow> string" where
  "fixedDigits n =
     (let m = (if n = 0 then ''0'' else digitsOf n);
          k = length m;
          z = (if k \<le> 5 then replicate (5 + 1 - k) CHR ''0'' else []);
          m' = z @ m;
          k' = length m'
      in take (k' - 5) m' @ ''.'' @ drop (k' - 5) m')"

definition toFixed5 :: "real \<Rightarrow> string" where
  "toFixed5 x =
     (let s = (if x < 0 then ''-'' else []);
          a = (if x < 0 then - x else x);
          n = nat \<lfloor>a * 10 ^ 5 + 1 / 2\<rfloor>
      in s @ fixedDigits n)"

text \<open>\<^verbatim>\<open>Array.prototype.join\<close> on an array of strings.\<close>

fun join :: "string \<Rightarrow> string list \<Rightarrow> string" where
  "join sep [] = []"
| "join sep [x] = x"
| "join sep (x # y # ys) = x @ sep @ join sep (y # ys)"

definition makeKey :: "'a latlon_scheme list \<Rightarrow> string \<Rightarrow> string" where
  "makeKey stops profile =
     profile @ '':'' @ join '';'' (map (\<lambda>s. toFixed5 (lon s) @ '','' @ toFixed5 (lat s)) stops)"

subsection \<open>The cache and its two tiers\<close>

text \<open>\<^verbatim>\<open>Omit<CachedRoute, 'cachedAt'>\<close> and \<^verbatim>\<open>CachedRoute\<close>; \<open>cachedAt\<close> is a \<^verbatim>\<open>Date.now()\<close>.\<close>

record RouteData =
  points :: "(real \<times> real) list"
  distanceKm :: real

record CachedRoute = RouteData +
  cachedAt :: nat

text \<open>
  What the browser provides: \<^verbatim>\<open>JSON.parse\<close> (\<open>None\<close> when it throws; a text that parses
  is taken to parse to a route), \<^verbatim>\<open>JSON.stringify\<close>, and whether
  \<^verbatim>\<open>sessionStorage.setItem\<close> throws for lack of quota, given the stored items, the key
  and the value.
\<close>

record browser =
  JSON_parse :: "string \<Rightarrow> CachedRoute option"
  JSON_stringify :: "CachedRoute \<Rightarrow> string"
  quotaExceeded :: "(string \<rightharpoonup> string) \<Rightarrow> string \<Rightarrow> string \<Rightarrow> bool"

text \<open>The module's \<^verbatim>\<open>_mem\<close> map and the tab's \<^verbatim>\<open>sessionStorage\<close>.\<close>

record client =
  mem :: "string \<rightharpoonup> CachedRoute"
  sessionStorage :: "string \<rightharpoonup> string"

definition PREFIX :: string where
  "PREFIX = ''btrc_''"

definition RouteCache_get ::
  "browser \<Rightarrow> client \<Rightarrow> 'a latlon_scheme list \<Rightarrow> string \<Rightarrow> CachedRoute option \<times> client" where
  "RouteCache_get env st stops profile =
     (let key = makeKey stops profile in
      case mem st key of
        Some v \<Rightarrow> (Some v, st)
      | None \<Rightarrow>
          (case sessionStorage st (PREFIX @ key) of
             None \<Rightarrow> (None, st)
           | Some raw \<Rightarrow>
               if raw = [] then (None, st)
               else (case JSON_parse env raw of
                       None \<Rightarrow> (None, st)
                     | Some v \<Rightarrow> (Some v, st\<lparr>mem := (mem st)(key \<mapsto> v)\<rparr>))))"

text \<open>\<open>now\<close> is the \<^verbatim>\<open>Date.now()\<close> of the call.\<close>

definition RouteCache_set ::
  "browser \<Rightarrow> nat \<Rightarrow> client \<Rightarrow> 'a latlon_scheme list \<Rightarrow> RouteData \<Rightarrow> string \<Rightarrow> client" where
  "RouteCache_set env now st stops data profile =
     (let key = makeKey stops profile;
          entry = \<lparr>points = points data, distanceKm = distanceKm data, cachedAt = now\<rparr>;
          st1 = st\<lparr>mem := (mem st)(key \<mapsto> entry)\<rparr>
      in if quotaExceeded env (sessionStorage st1) (PREFIX @ key) (JSON_stringify env entry)
         then st1
         else st1\<lparr>sessionStorage :=
                    (sessionStorage st1)(PREFIX @ key \<mapsto> JSON_stringify env entry)\<rparr>)"

text \<open>Exceptions, and what becomes of the one request \<open>prewarm\<close> makes.\<close>

datatype exn = TypeError | SyntaxError | NetworkError

text \<open>
  A route of the routing provider's reply: \<open>geometry\<close> is the array
  \<^verbatim>\<open>geometry.coordinates\<close> of \<^verbatim>\<open>[lon, lat]\<close> pairs, \<open>None\<close> when the route has none (reading
  it is then a \<^verbatim>\<open>TypeError\<close>).
\<close>

record osrm_route =
  geometry :: "(real \<times> real) list option"
  distance :: real
  duration :: real

text \<open>
  \<open>Rejected\<close>: \<^verbatim>\<open>fetch\<close> rejects. \<open>NotJson\<close>: \<^verbatim>\<open>resp.json()\<close> rejects. \<open>Json routes\<close>: the
  body parses, \<open>routes\<close> being its \<^verbatim>\<open>routes\<close> array, empty also when the body has none.
\<close>

datatype fetched = Rejected | NotJson | Json "osrm_route list"

text \<open>
  \<open>prewarm\<close> returns the exception its promise rejects with, if any, and the state it
  leaves. \<open>resp\<close> is the outcome of its request and \<open>now\<close> the time at which it stores.
\<close>

definition RouteCache_prewarm ::
  "browser \<Rightarrow> nat \<Rightarrow> fetched \<Rightarrow> client \<Rightarrow> 'a latlon_scheme list \<Rightarrow> string
     \<Rightarrow> exn option \<times> client" where
  "RouteCache_prewarm env now resp st stops profile =
     (case RouteCache_get env st stops profile of
        (Some v, st') \<Rightarrow> (None, st')
      | (None, st') \<Rightarrow>
          (case resp of
             Rejected \<Rightarrow> (Some NetworkError, st')
           | NotJson \<Rightarrow> (Some SyntaxError, st')
           | Json routes \<Rightarrow>
               if length routes = 0 then (None, st')
               else (case geometry (routes ! 0) of
                       None \<Rightarrow> (Some TypeError, st')
                     | Some coordinates \<Rightarrow>
                         (None,
                          RouteCache_set env now st' stops
                            \<lparr>points = map (\<lambda>c. (snd c, fst c)) coordinates,
                             distanceKm = distance (routes ! 0) / 1000\<rparr>
                            profile))))"

subsection \<open>main.ts: \<open>warmRouteCache\<close>, the caller of \<open>prewarm\<close>\<close>

text \<open>\<^verbatim>\<open>interface RouteStop { name: string; lat?: number; lon?: number }\<close>\<close>

record RouteStop =
  stop_name :: string
  stop_lat :: "real option"
  stop_lon :: "real option"

text \<open>\<^verbatim>\<open>s.lat && s.lon\<close>: both present and neither 0.\<close>

definition hasCoords :: "RouteStop \<Rightarrow> bool" where
  "hasCoords s =
     ((case stop_lat s of None \<Rightarrow> False | Some a \<Rightarrow> a \<noteq> 0)
      \<and> (case stop_lon s of None \<Rightarrow> False | Some b \<Rightarrow> b \<noteq> 0))"

text \<open>
  \<^verbatim>\<open>RouteCache.prewarm(resolved, 'driving').catch(() => {})\<close>: the rejection is dropped.
  The model runs the background task to its end.
\<close>

definition warmRouteCache ::
  "browser \<Rightarrow> nat \<Rightarrow> fetched \<Rightarrow> client \<Rightarrow> RouteStop list \<Rightarrow> exn option \<times> client" where
  "warmRouteCache env now resp st stops =
     (let resolved = map (\<lambda>s. \<lparr>lat = the (stop_lat s), lon = the (stop_lon s)\<rparr>)
                         (filter hasCoords stops)
      in if length resolved \<ge> 2
         then (case RouteCache_prewarm env now resp st resolved ''driving'' of
                 (Some e, st') \<Rightarrow> (None, st')
               | (None, st') \<Rightarrow> (None, st'))
         else (None, st))"

subsection \<open>Histories of cache operations\<close>

text \<open>A session starts with both tiers empty.\<close>

definition freshClient :: client where
  "freshClient = \<lparr>mem = Map.empty, sessionStorage = Map.empty\<rparr>"

datatype 'a cacheOp =
    Get "'a latlon_scheme list" string
  | Set nat "'a latlon_scheme list" RouteData string
  | Prewarm nat fetched "'a latlon_scheme list" string

fun applyOp :: "browser \<Rightarrow> client \<Rightarrow> 'a cacheOp \<Rightarrow> client" where
  "applyOp env st (Get stops profile) = snd (RouteCache_get env st stops profile)"
| "applyOp env st (Set now stops data profile) = RouteCache_set env now st stops data profile"
| "applyOp env st (Prewarm now resp stops profile) =
     snd (RouteCache_prewarm env now resp st stops profile)"

definition runOps :: "browser \<Rightarrow> 'a cacheOp list \<Rightarrow> client \<Rightarrow> client" where
  "runOps env ops st = foldl (applyOp env) st ops"

text \<open>The key an operation may store under: \<open>set\<close> always, \<open>prewarm\<close> on a miss.\<close>

fun storesUnder :: "'a cacheOp \<Rightarrow> string option" where
  "storesUnder (Get stops profile) = None"
| "storesUnder (Set now stops data profile) = Some (makeKey stops profile)"
| "storesUnder (Prewarm now resp stops profile) = Some (makeKey stops profile)"

text \<open>The key a \<open>set\<close> replaces.\<close>

fun setsKey :: "'a cacheOp \<Rightarrow> string option" where
  "setsKey (Set now stops data profile) = Some (makeKey stops profile)"
| "setsKey _ = None"

text \<open>
  A browser for the examples: no stored text parses, every route is stored as the same
  text, and the quota is never exceeded.
\<close>

definition plainBrowser :: browser where
  "plainBrowser =
     \<lparr>JSON_parse = (\<lambda>raw. None), JSON_stringify = (\<lambda>v. ''{}''),
      quotaExceeded = (\<lambda>items k v. False)\<rparr>"

subsection \<open>What a key holds\<close>

text \<open>
  Reading a rendered number back: the value of a digit, of a string of digits, and the
  test for a digit.
\<close>

definition digitVal :: "char \<Rightarrow> nat" where
  "digitVal c = of_char c - 48"

definition valOf :: "string \<Rightarrow> nat" where
  "valOf cs = foldl (\<lambda>a c. 10 * a + digitVal c) 0 cs"

definition isDigit :: "char \<Rightarrow> bool" where
  "isDigit c = (c \<in> set ''0123456789'')"

text \<open>
  A coordinate rounded to 5 decimal digits: whether it is negative, and its magnitude in
  units of \<open>10^-5\<close>, rounded to the nearest integer, a half upwards.
\<close>

definition fixed5 :: "real \<Rightarrow> bool \<times> nat" where
  "fixed5 x = (x < 0, nat \<lfloor>\<bar>x\<bar> * 10 ^ 5 + 1 / 2\<rfloor>)"

definition stopFixed5 :: "'a latlon_scheme \<Rightarrow> (bool \<times> nat) \<times> (bool \<times> nat)" where
  "stopFixed5 s = (fixed5 (lon s), fixed5 (lat s))"

text \<open>The padded digits behind the text of \<open>fixedDigits\<close>.\<close>

definition paddedDigits :: "nat \<Rightarrow> string" where
  "paddedDigits n =
     (let m = (if n = 0 then ''0'' else digitsOf n)
      in (if length m \<le> 5 then replicate (5 + 1 - length m) CHR ''0'' else []) @ m)"

text \<open>A key with no entry in either tier.\<close>

definition absentAt :: "client \<Rightarrow> string \<Rightarrow> bool" where
  "absentAt st k = (mem st k = None \<and> sessionStorage st (PREFIX @ k) = None)"

text \<open>
  A second browser for the examples: every stored text parses to an empty route that
  was stored at time 0.
\<close>

definition staleBrowser :: browser where
  "staleBrowser =
     \<lparr>JSON_parse = (\<lambda>raw. Some \<lparr>points = [], distanceKm = 0, cachedAt = 0\<rparr>),
      JSON_stringify = (\<lambda>v. ''{}''),
      quotaExceeded = (\<lambda>items k v. False)\<rparr>"

section \<open>geoValidator.ts: geocoding stop names\<close>

subsection \<open>Strings\<close>

text \<open>
  Strings are modelled for ASCII text. \<^verbatim>\<open>String.prototype.trim\<close> removes white space and
  line terminators at both ends; \<^verbatim>\<open>toLowerCase\<close> maps \<open>A..Z\<close> to \<open>a..z\<close>;
  \<^verbatim>\<open>s.split(',')[0]\<close> is the text before the first comma.
\<close>

definition isSpace :: "char \<Rightarrow> bool" where
  "isSpace c = (of_char c \<in> {9, 10, 11, 12, 13, 32 :: nat})"

definition trim :: "string \<Rightarrow> string" where
  "trim s = rev (dropWhile isSpace (rev (dropWhile isSpace s)))"

definition toLowerCase :: "string \<Rightarrow> string" where
  "toLowerCase s =
     map (\<lambda>c. if 65 \<le> (of_char c :: nat) \<and> (of_char c :: nat) \<le> 90
               then char_of (of_char c + 32 :: nat) else c) s"

definition beforeComma :: "string \<Rightarrow> string" where
  "beforeComma s = takeWhile (\<lambda>c. c \<noteq> CHR '','') s"

subsection \<open>Candidates and results\<close>

text \<open>
  A candidate of the geocoding provider. \<open>lat\<close> and \<open>lon\<close> are the numbers that the
  provider's strings denote (the source converts them with \<^verbatim>\<open>+\<close> or \<^verbatim>\<open>parseFloat\<close>);
  \<open>nd_name\<close> and \<open>nd_name_en\<close> are \<^verbatim>\<open>namedetails['name']\<close> and
  \<^verbatim>\<open>namedetails['name:en']\<close>, \<open>None\<close> when absent.
\<close>

record candidate = latlon +
  nd_name :: "string option"
  nd_name_en :: "string option"
  display_name :: string

text \<open>\<^verbatim>\<open>{ lat, lon, corrected }\<close>\<close>

record GeocodeResult = latlon +
  corrected :: string

text \<open>\<^verbatim>\<open>nd['name'] || nd['name:en'] || best.display_name.split(',')[0].trim()\<close>\<close>

definition correctedOf :: "candidate \<Rightarrow> string" where
  "correctedOf best =
     (case nd_name best of
        Some n \<Rightarrow> if n \<noteq> [] then n
                  else (case nd_name_en best of
                          Some e \<Rightarrow> if e \<noteq> [] then e else trim (beforeComma (display_name best))
                        | None \<Rightarrow> trim (beforeComma (display_name best)))
      | None \<Rightarrow>
          (case nd_name_en best of
             Some e \<Rightarrow> if e \<noteq> [] then e else trim (beforeComma (display_name best))
           | None \<Rightarrow> trim (beforeComma (display_name best))))"

definition haversine :: "real \<Rightarrow> real \<Rightarrow> real \<Rightarrow> real \<Rightarrow> real" where
  "haversine lat1 lon1 lat2 lon2 =
     (let R = 6371;
          d = (\<lambda>v. v * pi / 180);
          a = (sin (d (lat2 - lat1) / 2)) ^ 2
            + cos (d lat1) * cos (d lat2) * (sin (d (lon2 - lon1) / 2)) ^ 2
      in R * 2 * atan2 (sqrt a) (sqrt (1 - a)))"

text \<open>
  The choice among the candidates of one reply: the first, or with an anchor and more
  than one candidate,
  \<^verbatim>\<open>results.reduce((a, b) => haversine(anchor, a) <= haversine(anchor, b) ? a : b)\<close>.
  The reply is not empty where the source chooses.
\<close>

definition pickBest :: "'a latlon_scheme option \<Rightarrow> candidate list \<Rightarrow> candidate" where
  "pickBest anchor results =
     (case anchor of
        None \<Rightarrow> results ! 0
      | Some an \<Rightarrow>
          if length results > 1
          then foldl (\<lambda>a b. if haversine (lat an) (lon an) (lat a) (lon a)
                                   \<le> haversine (lat an) (lon an) (lat b) (lon b)
                              then a else b)
                     (results ! 0) (tl results)
          else results ! 0)"

subsection \<open>\<open>geocodeStop\<close>\<close>

text \<open>
  The module's \<^verbatim>\<open>_cache\<close> map (a name resolved to nothing is mapped to \<open>None\<close>), and the
  queries sent to the provider so far, in order.
\<close>

record geo =
  cache :: "string \<rightharpoonup> GeocodeResult option"
  requests :: "string list"

text \<open>
  The provider: the candidates in its reply to the \<open>n\<close>-th request of the session, for
  the query text; no candidates also when the request fails, as
  \<^verbatim>\<open>.catch(() => [])\<close> makes it. The provider may answer the same query differently at
  different times.
\<close>

type_synonym provider = "nat \<Rightarrow> string \<Rightarrow> candidate list"

text \<open>\<^verbatim>\<open>for (const q of queries) { ... }\<close> and the two lines after the loop.\<close>

fun tryQueries ::
  "provider \<Rightarrow> 'a latlon_scheme option \<Rightarrow> string \<Rightarrow> geo \<Rightarrow> string list
     \<Rightarrow> GeocodeResult option \<times> geo" where
  "tryQueries nominatim anchor cacheKey st [] =
     (None, st\<lparr>cache := (cache st)(cacheKey \<mapsto> None)\<rparr>)"
| "tryQueries nominatim anchor cacheKey st (q # qs) =
     (let results = nominatim (length (requests st)) q;
          st1 = st\<lparr>requests := requests st @ [q]\<rparr>
      in if length results = 0 then tryQueries nominatim anchor cacheKey st1 qs
         else (let best = pickBest anchor results;
                   result = \<lparr>lat = lat best, lon = lon best, corrected = correctedOf best\<rparr>
               in (Some result, st1\<lparr>cache := (cache st1)(cacheKey \<mapsto> Some result)\<rparr>)))"

definition geocodeStop ::
  "provider \<Rightarrow> geo \<Rightarrow> string \<Rightarrow> 'a latlon_scheme option \<Rightarrow> GeocodeResult option \<times> geo" where
  "geocodeStop nominatim st name anchor =
     (let cacheKey = toLowerCase (trim name) in
      case cache st cacheKey of
        Some v \<Rightarrow> (v, st)
      | None \<Rightarrow>
          tryQueries nominatim anchor cacheKey st
            [name @ '' bus stand Tamil Nadu India'',
             name @ '' bus stand India'',
             name @ '' India''])"

subsection \<open>\<open>geocodeStopSequence\<close>\<close>

text \<open>
  One turn of \<^verbatim>\<open>for (const name of names)\<close>, on the loop's variables \<open>results\<close> and
  \<open>anchor\<close> and the module's state:
  \<^verbatim>\<open>const r = await geocodeStop(name, anchor); results.push(r); if (r && !anchor) anchor = r;\<close>
\<close>

definition sequenceStep ::
  "provider \<Rightarrow> GeocodeResult option list \<times> GeocodeResult option \<times> geo \<Rightarrow> string
     \<Rightarrow> GeocodeResult option list \<times> GeocodeResult option \<times> geo" where
  "sequenceStep nominatim v name =
     (case v of (results, anchor, st) \<Rightarrow>
        (case geocodeStop nominatim st name anchor of (r, st') \<Rightarrow>
           (results @ [r],
            (if r \<noteq> None \<and> anchor = None then r else anchor),
            st')))"

text \<open>The loop's variables after the loop has run through \<open>names\<close>.\<close>

definition sequenceLoop ::
  "provider \<Rightarrow> geo \<Rightarrow> string list
     \<Rightarrow> GeocodeResult option list \<times> GeocodeResult option \<times> geo" where
  "sequenceLoop nominatim st names = foldl (sequenceStep nominatim) ([], None, st) names"

definition geocodeStopSequence ::
  "provider \<Rightarrow> geo \<Rightarrow> string list \<Rightarrow> GeocodeResult option list \<times> geo" where
  "geocodeStopSequence nominatim st names =
     (case sequenceLoop nominatim st names of (results, anchor, st') \<Rightarrow> (results, st'))"

text \<open>The first stop of a list of results that was resolved, if any.\<close>

fun firstResolved :: "'a option list \<Rightarrow> 'a option" where
  "firstResolved [] = None"
| "firstResolved (None # rs) = firstResolved rs"
| "firstResolved (Some r # rs) = Some r"

section \<open>routeResolver.ts: the edge function\<close>

subsection \<open>Requests, responses and the environment\<close>

text \<open>\<^verbatim>\<open>interface ResolveRequest { busId?: number; busName?: string; stops?: string[] }\<close>\<close>

record ResolveRequest =
  req_busId :: "int option"
  req_busName :: "string option"
  req_stops :: "string list option"

text \<open>\<^verbatim>\<open>interface ResolvedStop { name; corrected; lat; lon }\<close>\<close>

record ResolvedStop = GeocodeResult +
  resolved_name :: string

text \<open>\<^verbatim>\<open>interface RouteResponse\<close>; \<open>res_cachedAt\<close> stands for the ISO text of a time.\<close>

record RouteResponse =
  res_busId :: "int option"
  res_busName :: "string option"
  res_stops :: "ResolvedStop list"
  res_geometry :: "(real \<times> real) list"
  res_distanceKm :: real
  res_durationSec :: real
  res_cachedAt :: nat
  fromCache :: bool

text \<open>
  The body of a response: none, \<^verbatim>\<open>{ error, detail? }\<close> (the detail stands for
  \<^verbatim>\<open>err.message\<close>), or a route.
\<close>

datatype body = NoBody | ErrorBody string "exn option" | RouteBody RouteResponse

record response =
  status :: nat
  content :: body



text \<open>The \<open>stops\<close> column of a stored bus: an array, or a text to be parsed.\<close>

datatype stopsColumn = StopsArray "string list" | StopsText string

text \<open>
  What surrounds the function. \<open>db_rows id\<close> is the reply to the query for the bus
  \<open>id\<close>: the \<open>stops\<close> column of each row, \<open>Inl\<close> when the request or its parsing throws.
  \<open>JSON_parse_stops\<close> is \<^verbatim>\<open>JSON.parse\<close> on a column text. \<open>kvAvailable\<close> says whether
  \<^verbatim>\<open>Deno.openKv()\<close> succeeds; \<open>kvGetError\<close> and \<open>kvSetError\<close> are what \<^verbatim>\<open>kv.get\<close> and
  \<^verbatim>\<open>kv.set\<close> throw, \<open>None\<close> when they succeed (the store refuses, for one, a value above
  its size limit). \<open>geocoder q\<close> is the provider's reply to the query \<open>q\<close>:
  \<open>Inl\<close> when \<^verbatim>\<open>fetch\<close> throws, no candidates when the body does not parse.
  \<open>router stops\<close> is the routing provider's reply for the resolved stops: \<open>Inl\<close> when
  the request or its parsing throws, else the \<^verbatim>\<open>routes\<close> array. \<open>lookupTime\<close> and
  \<open>storeTime\<close> are the clock at the cache lookup and at the end. \<open>normalizeName\<close> is
  the source's function of that name, a rewriting of the stop name by regular
  expressions, which is left open: what is proved holds for every such function.
\<close>

record edge =
  db_rows :: "int \<Rightarrow> exn + stopsColumn list"
  JSON_parse_stops :: "string \<Rightarrow> exn + string list"
  kvAvailable :: bool
  kvGetError :: "exn option"
  kvSetError :: "exn option"
  geocoder :: "string \<Rightarrow> exn + candidate list"
  router :: "ResolvedStop list \<Rightarrow> exn + osrm_route list"
  lookupTime :: nat
  storeTime :: nat
  normalizeName :: "string \<Rightarrow> string"

text \<open>
  Modelled from the spec: the durable key-value cache of the platform, which holds under
  a key a value and the time in milliseconds at which it expires; an entry past its
  expiry is a miss.
\<close>

type_synonym kvStore = "string \<rightharpoonup> RouteResponse \<times> nat"


definition kv_set :: "kvStore \<Rightarrow> nat \<Rightarrow> string \<Rightarrow> RouteResponse \<Rightarrow> nat \<Rightarrow> kvStore" where
  "kv_set kv t key v expireIn = kv(key \<mapsto> (v, t + expireIn))"

text \<open>
  The calls that leave the function, in order. \<open>KvSet key value expireIn\<close> is
  \<^verbatim>\<open>kv.set([key], value, { expireIn })\<close>.
\<close>

datatype call =
    DbQuery int
  | KvGet string
  | Geocode string
  | Route "ResolvedStop list"
  | KvSet string RouteResponse nat

text \<open>
  Where a step of the function's \<^verbatim>\<open>try\<close> block ends: with an exception thrown, with a
  response returned, or with a value to go on with.
\<close>

datatype 'a outcome = Throw exn | Return response | Continue 'a

definition errorResponse :: "nat \<Rightarrow> string \<Rightarrow> response" where
  "errorResponse code msg = \<lparr>status = code, content = ErrorBody msg None\<rparr>"

subsection \<open>Step 1: the stop names\<close>


subsection \<open>Step 2: the cache key\<close>



subsection \<open>Step 3: geocoding every stop\<close>

definition edge_haversine :: "real \<Rightarrow> real \<Rightarrow> real \<Rightarrow> real \<Rightarrow> real" where
  "edge_haversine lat1 lon1 lat2 lon2 =
     (let R = 6371;
          dLat = (lat2 - lat1) * pi / 180;
          dLon = (lon2 - lon1) * pi / 180;
          a = (sin (dLat / 2)) ^ 2
            + cos (lat1 * pi / 180) * cos (lat2 * pi / 180) * (sin (dLon / 2)) ^ 2
      in R * 2 * atan2 (sqrt a) (sqrt (1 - a)))"

text \<open>
  \<^verbatim>\<open>let best = results[0]; if (anchorLat !== null && results.length > 1) best = results.reduce(...)\<close>.
  The anchor is the pair \<open>(anchorLat, anchorLon)\<close>, \<open>None\<close> while both are \<^verbatim>\<open>null\<close>.
\<close>

definition edgeBest :: "(real \<times> real) option \<Rightarrow> candidate list \<Rightarrow> candidate" where
  "edgeBest anchor results =
     (case anchor of
        None \<Rightarrow> results ! 0
      | Some (anchorLat, anchorLon) \<Rightarrow>
          if length results > 1
          then foldl (\<lambda>a b. let da = edge_haversine anchorLat anchorLon (lat a) (lon a);
                                 db = edge_haversine anchorLat anchorLon (lat b) (lon b)
                             in if da \<le> db then a else b)
                     (results ! 0) (tl results)
          else results ! 0)"

text \<open>
  \<^verbatim>\<open>for (const q of queries)\<close>: the candidate chosen from the first reply that is not
  empty, \<open>None\<close> when every reply is empty (\<open>found\<close> stays false), \<open>Inl\<close> when a request
  throws.
\<close>

fun edgeQueries ::
  "edge \<Rightarrow> (real \<times> real) option \<Rightarrow> call list \<Rightarrow> string list
     \<Rightarrow> (exn + candidate option) \<times> call list" where
  "edgeQueries env anchor calls [] = (Inr None, calls)"
| "edgeQueries env anchor calls (q # qs) =
     (case geocoder env q of
        Inl e \<Rightarrow> (Inl e, calls @ [Geocode q])
      | Inr results \<Rightarrow>
          if length results = 0 then edgeQueries env anchor (calls @ [Geocode q]) qs
          else (Inr (Some (edgeBest anchor results)), calls @ [Geocode q]))"

text \<open>
  \<^verbatim>\<open>for (let i = 0; i < stops.length; i++)\<close> on the variables \<open>resolvedStops\<close> and the
  anchor. The result holds the anchor as the loop leaves it.
\<close>

fun geocodeAll ::
  "edge \<Rightarrow> ResolvedStop list \<Rightarrow> (real \<times> real) option \<Rightarrow> call list \<Rightarrow> string list
     \<Rightarrow> (exn + ResolvedStop list \<times> (real \<times> real) option) \<times> call list" where
  "geocodeAll env resolvedStops anchor calls [] = (Inr (resolvedStops, anchor), calls)"
| "geocodeAll env resolvedStops anchor calls (stop # rest) =
     (let rawName = trim stop;
          normalized = normalizeName env rawName;
          queries = [normalized @ '' bus stand Tamil Nadu India'',
                     normalized @ '' bus stand India'',
                     normalized @ '' India'',
                     rawName @ '' India'']
      in case edgeQueries env anchor calls queries of
           (Inl e, calls') \<Rightarrow> (Inl e, calls')
         | (Inr None, calls') \<Rightarrow> geocodeAll env resolvedStops anchor calls' rest
         | (Inr (Some best), calls') \<Rightarrow>
             geocodeAll env
               (resolvedStops @
                  [\<lparr>lat = lat best, lon = lon best, corrected = correctedOf best,
                    resolved_name = rawName\<rparr>])
               (Some (lat best, lon best)) calls' rest)"

subsection \<open>Steps 4 to 6: routing, the response, the cache\<close>

definition routeAndStore ::
  "edge \<Rightarrow> kvStore \<Rightarrow> ResolveRequest \<Rightarrow> string \<Rightarrow> ResolvedStop list \<Rightarrow> call list
     \<Rightarrow> response outcome \<times> kvStore \<times> call list" where
  "routeAndStore env kv b cacheKey resolvedStops calls =
     (if length resolvedStops < 2
      then (Return (errorResponse 422 ''Could not geocode enough stops''), kv, calls)
      else (case router env resolvedStops of
              Inl e \<Rightarrow> (Throw e, kv, calls @ [Route resolvedStops])
            | Inr routes \<Rightarrow>
                if length routes = 0
                then (Return (errorResponse 502 ''OSRM returned no routes''), kv,
                      calls @ [Route resolvedStops])
                else (case geometry (routes ! 0) of
                        None \<Rightarrow> (Throw TypeError, kv, calls @ [Route resolvedStops])
                      | Some coordinates \<Rightarrow>
                          (let res = \<lparr>res_busId = req_busId b,
                                      res_busName = req_busName b,
                                      res_stops = resolvedStops,
                                      res_geometry = map (\<lambda>c. (snd c, fst c)) coordinates,
                                      res_distanceKm = distance (routes ! 0) / 1000,
                                      res_durationSec = duration (routes ! 0),
                                      res_cachedAt = storeTime env,
                                      fromCache = False\<rparr>;
                               ok = \<lparr>status = 200, content = RouteBody res\<rparr>
                           in if kvAvailable env
                              then (case kvSetError env of
                                      Some e \<Rightarrow>
                                        (Throw e, kv,
                                         calls @ [Route resolvedStops,
                                                  KvSet cacheKey res 86400000])
                                    | None \<Rightarrow>
                                        (Return ok,
                                         kv_set kv (storeTime env) cacheKey res 86400000,
                                         calls @ [Route resolvedStops,
                                                  KvSet cacheKey res 86400000]))
                              else (Return ok, kv, calls @ [Route resolvedStops])))))"

subsection \<open>The handler\<close>




text \<open>The anchor the edge loop holds: the place of the last stop it resolved.\<close>

definition lastPlace :: "ResolvedStop list \<Rightarrow> (real \<times> real) option" where
  "lastPlace resolvedStops =
     (if resolvedStops = [] then None
      else Some (lat (last resolvedStops), lon (last resolvedStops)))"

section \<open>A small world for the examples\<close>

text \<open>
  Four places on the equator, and a provider that knows the stops \<open>A\<close> and \<open>B\<close> by one
  candidate each and the stop \<open>C\<close> by two candidates, the first near \<open>A\<close> and the second
  near \<open>B\<close>; it knows no other name.
\<close>

definition placeA :: candidate where
  "placeA = \<lparr>lat = 0, lon = 0, nd_name = Some ''A'', nd_name_en = None, display_name = ''A, India''\<rparr>"

definition placeB :: candidate where
  "placeB = \<lparr>lat = 0, lon = 1, nd_name = Some ''B'', nd_name_en = None, display_name = ''B, India''\<rparr>"

definition nearA :: candidate where
  "nearA = \<lparr>lat = 0, lon = 1 / 10, nd_name = Some ''C west'', nd_name_en = None,
            display_name = ''C, West District, India''\<rparr>"

definition nearB :: candidate where
  "nearB = \<lparr>lat = 0, lon = 9 / 10, nd_name = Some ''C east'', nd_name_en = None,
            display_name = ''C, East District, India''\<rparr>"

definition equatorReply :: "string \<Rightarrow> candidate list" where
  "equatorReply q =
     (if q = ''A bus stand Tamil Nadu India'' then [placeA]
      else if q = ''B bus stand Tamil Nadu India'' then [placeB]
      else if q = ''C bus stand Tamil Nadu India'' then [nearA, nearB]
      else [])"

definition sampleNominatim :: provider where
  "sampleNominatim = (\<lambda>n q. equatorReply q)"

definition freshGeo :: geo where
  "freshGeo = \<lparr>cache = Map.empty, requests = []\<rparr>"

text \<open>
  An edge environment on the same provider: the bus 42 has the stops \<open>A\<close>, \<open>B\<close>, \<open>C\<close>,
  no other bus is stored, the store is available and works, the router returns one route, and
  names are normalized to themselves.
\<close>

definition sampleRoute :: osrm_route where
  "sampleRoute = \<lparr>geometry = Some [(0, 0), (1, 0)], distance = 111000, duration = 3600\<rparr>"

definition sampleEdge :: edge where
  "sampleEdge =
     \<lparr>db_rows = (\<lambda>busId. if busId = 42 then Inr [StopsArray [''A'', ''B'', ''C'']] else Inr []),
      JSON_parse_stops = (\<lambda>t. Inl SyntaxError),
      kvAvailable = True,
      kvGetError = None,
      kvSetError = None,
      geocoder = (\<lambda>q. Inr (equatorReply q)),
      router = (\<lambda>resolvedStops. Inr [sampleRoute]),
      lookupTime = 1000,
      storeTime = 2000,
      normalizeName = (\<lambda>s. s)\<rparr>"


text \<open>A provider that answers every query with the place \<open>A\<close>.\<close>

definition readyNominatim :: provider where
  "readyNominatim = (\<lambda>n q. [placeA])"








section \<open>Properties of the geometry worker\<close>

declare arrowLoop.simps [simp del]
declare filterLoop.simps [simp del]

subsection \<open>Range of \<open>atan2\<close> and of the remainder\<close>

lemma atan2_range: "- pi < atan2 y x \<and> atan2 y x \<le> pi"
proof -
  have "- (pi / 2) < arctan (y / x)" "arctan (y / x) < pi / 2"
    by (rule arctan_lbound, rule arctan_ubound)
  moreover have "x < 0 \<Longrightarrow> 0 \<le> y \<Longrightarrow> arctan (y / x) \<le> 0"
    by (simp add: divide_nonneg_neg arctan_le_zero_iff)
  moreover have "x < 0 \<Longrightarrow> y < 0 \<Longrightarrow> 0 < arctan (y / x)"
    by (simp add: divide_neg_neg zero_less_arctan_iff)
  ultimately show ?thesis
    using pi_gt_zero by (auto simp: atan2_def)
qed

lemma js_rem_360:
  assumes "0 \<le> a"
  shows "0 \<le> js_rem a 360 \<and> js_rem a 360 < 360"
proof -
  have "js_rem a 360 = a - 360 * of_int \<lfloor>a / 360\<rfloor>"
    using assms by (simp add: js_rem_def)
  moreover have "of_int \<lfloor>a / 360\<rfloor> \<le> a / 360" "a / 360 < of_int \<lfloor>a / 360\<rfloor> + 1"
    by linarith+
  ultimately show ?thesis by (simp add: field_simps)
qed

text \<open>Every bearing the worker computes lies in \<open>[0, 360)\<close>.\<close>

lemma bearing_range:
  "0 \<le> bearing (arrowAt pts i) \<and> bearing (arrowAt pts i) < 360"
proof -
  have "0 \<le> atan2 x y * 180 / pi + 360" for x y
  proof -
    have "- pi < atan2 x y" using atan2_range by simp
    then have "- pi * (180 / pi) < atan2 x y * (180 / pi)"
      by (intro mult_strict_right_mono) simp_all
    then show ?thesis by simp
  qed
  then show ?thesis
    by (simp add: arrowAt_def Let_def js_rem_360)
qed

subsection \<open>How many arrows \<open>computeArrowBearings\<close> returns\<close>

lemma arrowLoop_length:
  "length (arrowLoop pts step i bearings) =
     length bearings +
       (if step \<noteq> 0 \<and> i < length pts - 1 then (length pts - 2 - i) div step + 1 else 0)"
proof (induction pts step i bearings rule: arrowLoop.induct)
  case (1 pts step i bearings)
  show ?case
  proof (cases "step \<noteq> 0 \<and> i < length pts - 1")
    case False
    then show ?thesis by (subst arrowLoop.simps) auto
  next
    case True
    show ?thesis
    proof (cases "i + step < length pts - 1")
      case False
      then have "length pts - 2 - i < step" using True by arith
      then have "(length pts - 2 - i) div step = 0" by simp
      then show ?thesis using True False "1.IH" [OF True]
        by (subst arrowLoop.simps) simp
    next
      case t: True
      have "length pts - 2 - i = (length pts - 2 - (i + step)) + step"
        using t by simp
      then have "(length pts - 2 - i) div step = (length pts - 2 - (i + step)) div step + 1"
        using True by (metis div_add_self2)
      then show ?thesis using True t "1.IH" [OF True]
        by (subst arrowLoop.simps) simp
    qed
  qed
qed

lemma computeArrowBearings_length:
  "length (computeArrowBearings pts) =
     (if max 1 (length pts div 8) < length pts - 1
      then (length pts - 2 - max 1 (length pts div 8)) div max 1 (length pts div 8) + 1
      else 0)"
  by (simp add: computeArrowBearings_def Let_def arrowLoop_length)

text \<open>
  C1. The worker's comment promises at most 8 arrows. On a path of 15 points the stride
  is \<open>max 1 (15 div 8) = 1\<close>, the loop runs for \<open>i = 1, ..., 13\<close>, and the reply holds 13
  arrows. The input is the due-north path \<open>(0, 0), (1, 0), ..., (14, 0)\<close>.
\<close>

theorem computeArrowBearings_fifteen_points:
  "length (computeArrowBearings (map (\<lambda>k. (real k, 0)) [0..<15])) = 13"
  by (simp add: computeArrowBearings_length)

subsection \<open>Sines and cosines to the last bit\<close>

text \<open>
  Partial sums of the power series, with the bound on what is left out, enclose the sine
  and the cosine of a given number closely enough to tell which double is nearest.
\<close>

lemma sum14:
  "(\<Sum>m<14. f m) = f 0 + f (Suc 0) + f 2 + f 3 + f 4 + f 5 + f 6 + f 7 + f 8 + f 9 + f 10
      + f 11 + f 12 + f 13"
  for f :: "nat \<Rightarrow> real"
  by (simp add: numeral_eq_Suc)

lemma sum24:
  "(\<Sum>m<24. f m) = f 0 + f (Suc 0) + f 2 + f 3 + f 4 + f 5 + f 6 + f 7 + f 8 + f 9 + f 10
      + f 11 + f 12 + f 13 + f 14 + f 15 + f 16 + f 17 + f 18 + f 19 + f 20 + f 21 + f 22 + f 23"
  for f :: "nat \<Rightarrow> real"
  by (simp add: numeral_eq_Suc)

lemma sin_coeffs:
  "sin_coeff 0 = 0" "sin_coeff (Suc 0) = 1" "sin_coeff 2 = 0" "sin_coeff 3 = - 1 / 6"
  "sin_coeff 4 = 0" "sin_coeff 5 = 1 / 120" "sin_coeff 6 = 0" "sin_coeff 7 = - 1 / 5040"
  "sin_coeff 8 = 0" "sin_coeff 9 = 1 / 362880" "sin_coeff 10 = 0"
  "sin_coeff 11 = - 1 / 39916800" "sin_coeff 12 = 0" "sin_coeff 13 = 1 / 6227020800"
  "sin_coeff 14 = 0" "sin_coeff 15 = - 1 / 1307674368000" "sin_coeff 16 = 0"
  "sin_coeff 17 = 1 / 355687428096000" "sin_coeff 18 = 0"
  "sin_coeff 19 = - 1 / 121645100408832000" "sin_coeff 20 = 0"
  "sin_coeff 21 = 1 / 51090942171709440000" "sin_coeff 22 = 0"
  "sin_coeff 23 = - 1 / 25852016738884976640000"
  by (simp_all add: sin_coeff_def fact_numeral)

lemma cos_coeffs:
  "cos_coeff 0 = 1" "cos_coeff (Suc 0) = 0" "cos_coeff 2 = - 1 / 2" "cos_coeff 3 = 0"
  "cos_coeff 4 = 1 / 24" "cos_coeff 5 = 0" "cos_coeff 6 = - 1 / 720" "cos_coeff 7 = 0"
  "cos_coeff 8 = 1 / 40320" "cos_coeff 9 = 0" "cos_coeff 10 = - 1 / 3628800"
  "cos_coeff 11 = 0" "cos_coeff 12 = 1 / 479001600" "cos_coeff 13 = 0"
  by (simp_all add: cos_coeff_def fact_numeral)

lemma Maclaurin_cos_bound:
  assumes "0 < x" "0 < n"
  shows "\<bar>cos x - (\<Sum>m<n. cos_coeff m * x ^ m)\<bar> \<le> x ^ n / fact n"
proof -
  define S where "S = (\<Sum>m<n. cos_coeff m * x ^ m)"
  define r where "r = x ^ n / fact n"
  have r0: "0 \<le> r" using assms by (simp add: r_def)
  obtain t where "cos x = S + (cos (t + 1/2 * real n * pi) / fact n) * x ^ n"
    using Maclaurin_cos_expansion2 [OF assms] unfolding S_def by blast
  then have "cos x - S = cos (t + 1/2 * real n * pi) * r"
    by (simp add: r_def)
  then have "\<bar>cos x - S\<bar> = \<bar>cos (t + 1/2 * real n * pi)\<bar> * r"
    using r0 by (simp only: abs_mult abs_of_nonneg)
  also have "\<dots> \<le> 1 * r"
    using r0 by (intro mult_right_mono) simp_all
  finally show ?thesis by (simp add: S_def r_def)
qed

lemma sin_x1_bounds:
  "\<bar>sin (7545853602163669 / 2 ^ 55 :: real) * 2 ^ 55 - 7490808106342645\<bar> < 1 / 4"
proof -
  define x :: real where "x = 7545853602163669 / 2 ^ 55"
  define P where "P = x - x^3 / 6 + x^5 / 120 - x^7 / 5040 + x^9 / 362880 - x^11 / 39916800
      + x^13 / 6227020800"
  have b: "\<bar>sin x - (\<Sum>m<14. sin_coeff m * x ^ m)\<bar> \<le> inverse (fact 14) * \<bar>x\<bar> ^ 14"
    by (rule Maclaurin_sin_bound)
  have p: "(\<Sum>m<14. sin_coeff m * x ^ m) = P"
    by (simp add: sum14 sin_coeffs P_def)
  have e: "inverse (fact 14) * \<bar>x\<bar> ^ 14 \<le> 1 / 2 ^ 60"
    unfolding x_def by (simp add: fact_numeral power_divide field_simps)
  have q: "\<bar>P * 2 ^ 55 - 7490808106342645\<bar> < 1 / 5"
    unfolding P_def x_def by (simp add: abs_less_iff power_divide)
  have d: "\<bar>sin x - P\<bar> \<le> 1 / 2 ^ 60"
    using b p e by linarith
  have "\<bar>sin x * 2 ^ 55 - 7490808106342645\<bar> < 1 / 4"
    using d q unfolding abs_le_iff abs_less_iff by simp
  then show ?thesis by (simp add: x_def)
qed

lemma cos_x1_bounds:
  "\<bar>cos (7545853602163669 / 2 ^ 55 :: real) * 2 ^ 53 - 8810370340356224\<bar> < 9 / 20"
proof -
  define x :: real where "x = 7545853602163669 / 2 ^ 55"
  define P where "P = 1 - x^2 / 2 + x^4 / 24 - x^6 / 720 + x^8 / 40320 - x^10 / 3628800
      + x^12 / 479001600"
  have x0: "0 < x" by (simp add: x_def)
  have b: "\<bar>cos x - (\<Sum>m<14. cos_coeff m * x ^ m)\<bar> \<le> x ^ 14 / fact 14"
    by (rule Maclaurin_cos_bound [OF x0]) simp
  have p: "(\<Sum>m<14. cos_coeff m * x ^ m) = P"
    by (simp add: sum14 cos_coeffs P_def)
  have e: "x ^ 14 / fact 14 \<le> 1 / 2 ^ 60"
    unfolding x_def by (simp add: fact_numeral power_divide field_simps)
  have q: "\<bar>P * 2 ^ 53 - 8810370340356224\<bar> < 44 / 100"
    unfolding P_def x_def by (simp add: abs_less_iff power_divide)
  have d: "\<bar>cos x - P\<bar> \<le> 1 / 2 ^ 60"
    using b p e by linarith
  have "\<bar>cos x * 2 ^ 53 - 8810370340356224\<bar> < 9 / 20"
    using d q unfolding abs_le_iff abs_less_iff by simp
  then show ?thesis by (simp add: x_def)
qed

lemma sin_x4_bounds:
  "1 - 1 / 2 ^ 56 \<le> sin (884279719003555 / 2 ^ 49 :: real)"
proof -
  define x :: real where "x = 884279719003555 / 2 ^ 49"
  define P where "P = x - x^3 / 6 + x^5 / 120 - x^7 / 5040 + x^9 / 362880 - x^11 / 39916800
      + x^13 / 6227020800 - x^15 / 1307674368000 + x^17 / 355687428096000
      - x^19 / 121645100408832000 + x^21 / 51090942171709440000
      - x^23 / 25852016738884976640000"
  have b: "\<bar>sin x - (\<Sum>m<24. sin_coeff m * x ^ m)\<bar> \<le> inverse (fact 24) * \<bar>x\<bar> ^ 24"
    by (rule Maclaurin_sin_bound)
  have p: "(\<Sum>m<24. sin_coeff m * x ^ m) = P"
    by (simp add: sum24 sin_coeffs P_def)
  have e: "inverse (fact 24) * \<bar>x\<bar> ^ 24 \<le> 1 / 2 ^ 62"
    unfolding x_def by (simp add: fact_numeral power_divide field_simps)
  have q: "1 - 1 / 2 ^ 62 \<le> P"
    unfolding P_def x_def by (simp add: power_divide)
  have d: "\<bar>sin x - P\<bar> \<le> 1 / 2 ^ 62"
    using b p e by linarith
  have "1 - 1 / 2 ^ 56 \<le> sin x"
    using d q unfolding abs_le_iff abs_less_iff by simp
  then show ?thesis by (simp add: x_def)
qed

subsection \<open>Rounding to a double\<close>

lemma pow2_powr: "pow2 e = 2 powr (of_int e)"
proof (cases "0 \<le> e")
  case True
  then show ?thesis
    by (simp add: pow2_def powr_realpow [symmetric])
next
  case False
  have "(2::real) powr (of_int e) = 2 powr (- of_int (- e))"
    by simp
  also have "\<dots> = 1 / 2 powr (of_int (- e))"
    by (simp only: powr_minus_divide)
  also have "\<dots> = 1 / 2 ^ nat (- e)"
    using False by (simp add: powr_realpow [symmetric])
  finally show ?thesis using False by (simp add: pow2_def)
qed

lemma binade_eq:
  assumes "pow2 e \<le> \<bar>x\<bar>" "\<bar>x\<bar> < pow2 (e + 1)" "- 1022 \<le> e"
  shows "binade x = e"
proof -
  have "0 < pow2 e" by (simp add: pow2_powr)
  then have x: "0 < \<bar>x\<bar>" using assms(1) by linarith
  have "\<lfloor>log 2 \<bar>x\<bar>\<rfloor> = e"
    using assms(1,2) x by (simp add: floor_log_eq_powr_iff pow2_powr)
  then show ?thesis using assms(3) by (simp add: binade_def)
qed

lemma fl_eval:
  assumes "pow2 e \<le> \<bar>x\<bar>" "\<bar>x\<bar> < pow2 (e + 1)" "- 1022 \<le> e"
  shows "fl x = of_int (roundEven (x / pow2 (e - 52))) * pow2 (e - 52)"
proof -
  have "0 < pow2 e" by (simp add: pow2_powr)
  then have "x \<noteq> 0" using assms(1) by auto
  then show ?thesis by (simp add: fl_def binade_eq [OF assms])
qed

lemma roundEven_near: "\<bar>y - of_int M\<bar> < 1 / 2 \<Longrightarrow> roundEven y = M"
proof (cases "of_int M \<le> y")
  case True
  assume a: "\<bar>y - of_int M\<bar> < 1 / 2"
  have "\<lfloor>y\<rfloor> = M" using True a by (intro floor_unique) (simp_all add: abs_less_iff)
  then show ?thesis using a True by (simp add: roundEven_def Let_def abs_less_iff)
next
  case False
  assume a: "\<bar>y - of_int M\<bar> < 1 / 2"
  have "\<lfloor>y\<rfloor> = M - 1" using False a by (intro floor_unique) (simp_all add: abs_less_iff)
  then show ?thesis using a False by (simp add: roundEven_def Let_def abs_less_iff)
qed

lemma fl_near:
  assumes "\<bar>x / pow2 (e - 52) - of_int M\<bar> < 1 / 2"
    "pow2 e \<le> \<bar>x\<bar>" "\<bar>x\<bar> < pow2 (e + 1)" "- 1022 \<le> e"
  shows "fl x = of_int M * pow2 (e - 52)"
  by (simp add: fl_eval [OF assms(2-4)] roundEven_near [OF assms(1)])

lemma fl_sin_x1: "fl (sin (7545853602163669 / 2 ^ 55)) = 7490808106342645 / 2 ^ 55"
proof -
  define s :: real where "s = sin (7545853602163669 / 2 ^ 55)"
  have b: "\<bar>s * 2 ^ 55 - 7490808106342645\<bar> < 1 / 4"
    unfolding s_def by (rule sin_x1_bounds)
  have "fl s = of_int 7490808106342645 * pow2 (- 3 - 52)"
  proof (rule fl_near)
    show "\<bar>s / pow2 (- 3 - 52) - of_int 7490808106342645\<bar> < 1 / 2"
      using b by (simp add: pow2_def)
    have "0 < s" using b unfolding abs_less_iff by simp
    then show "pow2 (- 3) \<le> \<bar>s\<bar>" using b unfolding abs_less_iff by (simp add: pow2_def)
    show "\<bar>s\<bar> < pow2 (- 3 + 1)" using b unfolding abs_less_iff by (simp add: pow2_def)
  qed simp
  then show ?thesis by (simp add: s_def pow2_def)
qed

lemma fl_cos_x1: "fl (cos (7545853602163669 / 2 ^ 55)) = 68831018284033 / 2 ^ 46"
proof -
  define c :: real where "c = cos (7545853602163669 / 2 ^ 55)"
  have b: "\<bar>c * 2 ^ 53 - 8810370340356224\<bar> < 9 / 20"
    unfolding c_def by (rule cos_x1_bounds)
  have "fl c = of_int 8810370340356224 * pow2 (- 1 - 52)"
  proof (rule fl_near)
    show "\<bar>c / pow2 (- 1 - 52) - of_int 8810370340356224\<bar> < 1 / 2"
      using b by (simp add: pow2_def)
    have "0 < c" using b unfolding abs_less_iff by simp
    then show "pow2 (- 1) \<le> \<bar>c\<bar>" using b unfolding abs_less_iff by (simp add: pow2_def)
    show "\<bar>c\<bar> < pow2 (- 1 + 1)" using b unfolding abs_less_iff by (simp add: pow2_def)
  qed simp
  then show ?thesis by (simp add: c_def pow2_def)
qed

lemma fl_one: "fl 1 = 1"
  by (subst fl_eval [where e = 0]) (simp_all add: pow2_def roundEven_def)

lemma fl_sin_x4: "fl (sin (884279719003555 / 2 ^ 49)) = 1"
proof -
  define s :: real where "s = sin (884279719003555 / 2 ^ 49)"
  have lo: "1 - 1 / 2 ^ 56 \<le> s"
    unfolding s_def by (rule sin_x4_bounds)
  have hi: "s \<le> 1" by (simp add: s_def)
  show ?thesis
  proof (cases "s = 1")
    case True
    then show ?thesis using fl_one by (simp add: s_def)
  next
    case False
    then have lt: "s < 1" using hi by simp
    have "fl s = of_int 9007199254740992 * pow2 (- 1 - 52)"
    proof (rule fl_near)
      show "\<bar>s / pow2 (- 1 - 52) - of_int 9007199254740992\<bar> < 1 / 2"
        using lo lt by (simp add: pow2_def abs_less_iff)
      show "pow2 (- 1) \<le> \<bar>s\<bar>" using lo by (simp add: pow2_def abs_le_iff)
      show "\<bar>s\<bar> < pow2 (- 1 + 1)" using lo lt by (simp add: pow2_def abs_less_iff)
    qed simp
    then show ?thesis by (simp add: s_def pow2_def)
  qed
qed

subsection \<open>The distance of two fixes opposite each other on the sphere\<close>

text \<open>
  The computation of \<open>fa\<close> for the fixes \<open>(-12, -179)\<close> and \<open>(12, 1)\<close> in double precision,
  step by step.
\<close>

lemma binary64_fields:
  "rnd binary64 = fl" "Math_PI binary64 = 884279719003555 / 2 ^ 48"
  "Math_sin binary64 x = fl (sin x)" "Math_cos binary64 x = fl (cos x)"
  by (simp_all add: binary64_def)

lemma antipodal_term:
  assumes "lat p = - 12" "lon p = - 179" "lat q = 12" "lon q = 1"
  shows "haversineTerm binary64 p q = 1 + 1 / 2 ^ 52"
proof -
  let ?r = "rnd binary64"
  let ?PI = "Math_PI binary64"
  have a1: "?r (lat q - lat p) = 24"
    unfolding assms binary64_fields
    by (simp, subst fl_eval [where e = 4]) (simp_all add: pow2_def roundEven_def)
  have a2: "?r (24 * ?PI) = 2652839157010665 / 2 ^ 45"
    unfolding binary64_fields
    by (subst fl_eval [where e = 6]) (simp_all add: pow2_def roundEven_def)
  have a3: "?r (2652839157010665 / 2 ^ 45 / 180) = 7545853602163669 / 2 ^ 54"
    unfolding binary64_fields
    by (subst fl_eval [where e = "- 2"]) (simp_all add: pow2_def roundEven_def)
  have a4: "?r (7545853602163669 / 2 ^ 54 / 2) = 7545853602163669 / 2 ^ 55"
    unfolding binary64_fields
    by (subst fl_eval [where e = "- 3"]) (simp_all add: pow2_def roundEven_def)
  have a5: "Math_sin binary64 (7545853602163669 / 2 ^ 55) = 7490808106342645 / 2 ^ 55"
    unfolding binary64_fields by (rule fl_sin_x1)
  have a6: "?r (7490808106342645 / 2 ^ 55 * (7490808106342645 / 2 ^ 55))
      = 6229706315924309 / 2 ^ 57"
    unfolding binary64_fields
    by (subst fl_eval [where e = "- 5"]) (simp_all add: pow2_def roundEven_def)
  have b1: "?r (lat p * ?PI) = - (2652839157010665 / 2 ^ 46)"
    unfolding assms binary64_fields
    by (subst fl_eval [where e = 5]) (simp_all add: pow2_def roundEven_def)
  have b2: "?r (- (2652839157010665 / 2 ^ 46) / 180) = - (7545853602163669 / 2 ^ 55)"
    unfolding binary64_fields
    by (subst fl_eval [where e = "- 3"]) (simp_all add: pow2_def roundEven_def)
  have b3: "Math_cos binary64 (- (7545853602163669 / 2 ^ 55)) = 68831018284033 / 2 ^ 46"
    unfolding binary64_fields by (simp only: cos_minus fl_cos_x1)
  have c1: "?r (lat q * ?PI) = 2652839157010665 / 2 ^ 46"
    unfolding assms binary64_fields
    by (subst fl_eval [where e = 5]) (simp_all add: pow2_def roundEven_def)
  have c2: "?r (2652839157010665 / 2 ^ 46 / 180) = 7545853602163669 / 2 ^ 55"
    unfolding binary64_fields
    by (subst fl_eval [where e = "- 3"]) (simp_all add: pow2_def roundEven_def)
  have c3: "Math_cos binary64 (7545853602163669 / 2 ^ 55) = 68831018284033 / 2 ^ 46"
    unfolding binary64_fields by (rule fl_cos_x1)
  have c4: "?r (68831018284033 / 2 ^ 46 * (68831018284033 / 2 ^ 46))
      = 2154460652498931 / 2 ^ 51"
    unfolding binary64_fields
    by (subst fl_eval [where e = "- 1"]) (simp_all add: pow2_def roundEven_def)
  have d1: "?r (lon q - lon p) = 180"
    unfolding assms binary64_fields
    by (simp, subst fl_eval [where e = 7]) (simp_all add: pow2_def roundEven_def)
  have d2: "?r (180 * ?PI) = 4974073419394997 / 2 ^ 43"
    unfolding binary64_fields
    by (subst fl_eval [where e = 9]) (simp_all add: pow2_def roundEven_def)
  have d3: "?r (4974073419394997 / 2 ^ 43 / 180) = 884279719003555 / 2 ^ 48"
    unfolding binary64_fields
    by (subst fl_eval [where e = 1]) (simp_all add: pow2_def roundEven_def)
  have d4: "?r (884279719003555 / 2 ^ 48 / 2) = 884279719003555 / 2 ^ 49"
    unfolding binary64_fields
    by (subst fl_eval [where e = 0]) (simp_all add: pow2_def roundEven_def)
  have d5: "Math_sin binary64 (884279719003555 / 2 ^ 49) = 1"
    unfolding binary64_fields by (rule fl_sin_x4)
  have d6: "?r (2154460652498931 / 2 ^ 51 * 1) = 2154460652498931 / 2 ^ 51"
    unfolding binary64_fields
    by (subst fl_eval [where e = "- 1"]) (simp_all add: pow2_def roundEven_def)
  have e1: "?r (6229706315924309 / 2 ^ 57 + 2154460652498931 / 2 ^ 51) = 1 + 1 / 2 ^ 52"
    unfolding binary64_fields
    by (subst fl_eval [where e = 0]) (simp_all add: pow2_def roundEven_def)
  show ?thesis
    by (simp only: haversineTerm_def Let_def a1 a2 a3 a4 a5 a6 b1 b2 b3 c1 c2 c3 c4
        d1 d2 d3 d4 d5 d6 e1)
qed

lemma antipodal_nan:
  assumes "lat p = - 12" "lon p = - 179" "lat q = 12" "lon q = 1"
  shows "gpsDist binary64 p q = None"
proof -
  have "rnd binary64 (1 - (1 + 1 / 2 ^ 52)) = - (1 / 2 ^ 52)"
    unfolding binary64_fields
    by (simp, subst fl_eval [where e = "- 52"]) (simp_all add: pow2_def roundEven_def)
  then show ?thesis
    by (simp add: gpsDist_def Let_def antipodal_term [OF assms])
qed

subsection \<open>\<open>filterNoisyGps\<close> is a greedy pass\<close>

lemma filterLoop_keepFrom:
  "filtered \<noteq> [] \<Longrightarrow>
   filterLoop m d raw k filtered
     = filtered @ keepFrom (\<lambda>p c. js_ge (gpsDist m p c) d) (last filtered) (drop k raw)"
proof (induction m d raw k filtered rule: filterLoop.induct)
  case (1 m minDist rawPoints k filtered)
  show ?case
  proof (cases "k < length rawPoints")
    case False
    then show ?thesis by (simp add: filterLoop.simps [of m minDist rawPoints k filtered])
  next
    case True
    then have d: "drop k rawPoints = rawPoints ! k # drop (Suc k) rawPoints"
      by (simp add: Cons_nth_drop_Suc)
    show ?thesis
      using True "1.prems" "1.IH" [OF True refl refl refl]
      by (simp add: filterLoop.simps [of m minDist rawPoints k filtered] d Let_def)
  qed
qed

lemma filterNoisyGps_pass:
  "filterNoisyGps m rawPoints minDistMeters
     = greedyPass (\<lambda>p c. js_ge (gpsDist m p c) (case minDistMeters of Some d \<Rightarrow> d | None \<Rightarrow> 20))
         rawPoints"
proof (cases rawPoints)
  case Nil
  then show ?thesis by (simp add: filterNoisyGps_def filterLoop.simps [of _ _ "[]"])
next
  case (Cons p ps)
  then show ?thesis by (simp add: filterNoisyGps_def filterLoop_keepFrom)
qed

text \<open>A fix whose distance from the fix before it is NaN is dropped at every threshold.\<close>

lemma nan_is_dropped:
  "gpsDist m p q = None \<Longrightarrow> filterNoisyGps m [p, q] minDistMeters = [p]"
  by (simp add: filterNoisyGps_pass js_ge_def)

text \<open>In exact arithmetic the distance computed is the great-circle distance.\<close>

lemma atan2_sin_cos:
  assumes "0 \<le> h" "h < pi / 2"
  shows "atan2 (sqrt (sin h * sin h)) (sqrt (1 - sin h * sin h)) = h"
proof -
  have s: "0 \<le> sin h" using assms by (intro sin_ge_zero) (auto simp: field_simps)
  have c: "0 < cos h" using assms by (intro cos_gt_zero_pi) auto
  have "1 - sin h * sin h = cos h * cos h"
    using sin_cos_squared_add [of h] by (simp add: power2_eq_square algebra_simps)
  then have "sqrt (1 - sin h * sin h) = cos h" using c by simp
  moreover have "sqrt (sin h * sin h) = sin h" using s by simp
  moreover have "arctan (sin h / cos h) = h"
    using arctan_tan [of h] assms by (simp add: tan_def)
  ultimately show ?thesis using c by (simp add: atan2_def)
qed

lemma half_angle: "sin (x / 2) * sin (x / 2) = (1 - cos x) / 2" for x :: real
  using cos_double_sin [of "x / 2"] by (simp add: power2_eq_square)

lemma gpsDist_exact:
  assumes "\<bar>lat p\<bar> \<le> 90" "\<bar>lat q\<bar> \<le> 90"
  shows "gpsDist exactArith p q = Some (greatCircle p q)"
proof -
  define f1 where "f1 = lat p * pi / 180"
  define f2 where "f2 = lat q * pi / 180"
  define dl where "dl = (lon q - lon p) * pi / 180"
  define k where "k = cos f1 * cos f2"
  define C where "C = sin f1 * sin f2 + k * cos dl"
  define a where "a = sin ((f2 - f1) / 2) * sin ((f2 - f1) / 2) + k * (sin (dl / 2) * sin (dl / 2))"
  have r1: "\<bar>f1\<bar> \<le> pi / 2"
  proof -
    have "\<bar>lat p\<bar> * pi \<le> 90 * pi" using assms(1) by (intro mult_right_mono) simp_all
    then show ?thesis by (simp add: f1_def abs_mult)
  qed
  have r2: "\<bar>f2\<bar> \<le> pi / 2"
  proof -
    have "\<bar>lat q\<bar> * pi \<le> 90 * pi" using assms(2) by (intro mult_right_mono) simp_all
    then show ?thesis by (simp add: f2_def abs_mult)
  qed
  have c1: "0 \<le> cos f1" using r1 by (intro cos_ge_zero) (simp_all add: abs_le_iff)
  have c2: "0 \<le> cos f2" using r2 by (intro cos_ge_zero) (simp_all add: abs_le_iff)
  have k0: "0 \<le> k" using c1 c2 by (simp add: k_def)
  have tm: "haversineTerm exactArith p q = a"
    by (simp add: haversineTerm_def exactArith_def Let_def a_def k_def f1_def f2_def dl_def
        algebra_simps diff_divide_distrib)
  have a_eq: "a = (1 - cos (f2 - f1)) / 2 + k * ((1 - cos dl) / 2)"
    by (simp only: a_def half_angle)
  have cd: "cos (f2 - f1) = k + sin f1 * sin f2"
    by (simp add: cos_diff k_def)
  have a_C: "a = (1 - C) / 2"
    by (simp add: a_eq cd C_def field_simps)
  have a0: "0 \<le> a"
    using k0 by (simp add: a_def)
  have "k * (sin (dl / 2) * sin (dl / 2)) \<le> k * 1"
  proof (rule mult_left_mono [OF _ k0])
    have "\<bar>sin (dl / 2)\<bar> * \<bar>sin (dl / 2)\<bar> \<le> 1 * 1"
      by (intro mult_mono) simp_all
    then show "sin (dl / 2) * sin (dl / 2) \<le> 1" by simp
  qed
  then have t_le: "k * (sin (dl / 2) * sin (dl / 2)) \<le> k" by simp
  have u: "sin ((f2 - f1) / 2) * sin ((f2 - f1) / 2) + k = (1 + cos (f1 + f2)) / 2"
    by (simp add: half_angle cd cos_add k_def field_simps)
  have a1: "a \<le> 1"
  proof -
    define U where "U = sin ((f2 - f1) / 2) * sin ((f2 - f1) / 2)"
    define T where "T = k * (sin (dl / 2) * sin (dl / 2))"
    define c where "c = cos (f1 + f2)"
    have c1: "c \<le> 1" by (simp add: c_def)
    have tk: "T \<le> k" using t_le by (simp add: T_def)
    have "a = U + T" by (simp add: a_def U_def T_def)
    also have "\<dots> \<le> U + k" using tk by simp
    also have "\<dots> = (1 + c) / 2" using u by (simp add: U_def c_def)
    also have "\<dots> \<le> 1" using c1 by simp
    finally show ?thesis .
  qed
  have C1: "- 1 \<le> C" "C \<le> 1"
    using a0 a1 a_C by simp_all
  define h where "h = arccos C / 2"
  have h0: "0 \<le> h" using arccos_lbound [OF C1] by (simp add: h_def)
  have h1: "h \<le> pi / 2" using arccos_ubound [OF C1] by (simp add: h_def)
  have "sin h * sin h = (1 - cos (arccos C)) / 2"
    unfolding h_def by (rule half_angle)
  then have sa: "sin h * sin h = a"
    using C1 by (simp add: a_C)
  have at: "atan2 (sqrt a) (sqrt (1 - a)) = h"
  proof (cases "h = pi / 2")
    case True
    have "sin h = 1" unfolding True by simp
    then have "a = 1" using sa by simp
    then show ?thesis unfolding True by (simp add: atan2_def)
  next
    case False
    then have "h < pi / 2" using h1 by simp
    then show ?thesis using atan2_sin_cos [OF h0] sa by simp
  qed
  have "gpsDist exactArith p q = Some (6371000 * 2 * h)"
    using a0 a1 at by (simp add: gpsDist_def Let_def tm) (simp add: exactArith_def)
  also have "6371000 * 2 * h = greatCircle p q"
    by (simp add: h_def greatCircle_def C_def k_def f1_def f2_def dl_def)
  finally show ?thesis .
qed

text \<open>
  So in exact arithmetic, on latitudes from -90 to 90, the worker's filter is the filter of
  the specification, and on the specification's example it returns what is expected.
\<close>

lemma keepFrom_agree:
  assumes "\<And>p c. ok p \<Longrightarrow> ok c \<Longrightarrow> far p c = far' p c"
  shows "ok lastKept \<Longrightarrow> \<forall>c \<in> set cs. ok c \<Longrightarrow>
         keepFrom far lastKept cs = keepFrom far' lastKept cs"
proof (induction cs arbitrary: lastKept)
  case Nil
  then show ?case by simp
next
  case (Cons c cs)
  then have "far lastKept c = far' lastKept c" using assms by simp
  then show ?case using Cons by simp
qed

lemma filterNoisyGps_exact:
  assumes "\<forall>p \<in> set rawPoints. \<bar>lat p\<bar> \<le> 90"
  shows "filterNoisyGps exactArith rawPoints minDistMeters
     = greedyFilter (case minDistMeters of Some d \<Rightarrow> d | None \<Rightarrow> 20) rawPoints"
proof (cases rawPoints)
  case Nil
  then show ?thesis by (simp add: filterNoisyGps_pass greedyFilter_def)
next
  case (Cons p ps)
  let ?d = "case minDistMeters of Some d \<Rightarrow> d | None \<Rightarrow> 20"
  have "keepFrom (\<lambda>p c. js_ge (gpsDist exactArith p c) ?d) p ps
      = keepFrom (\<lambda>lastKept c. ?d \<le> greatCircle lastKept c) p ps"
  proof (rule keepFrom_agree [where ok = "\<lambda>p. \<bar>lat p\<bar> \<le> 90"])
    show "js_ge (gpsDist exactArith p c) ?d = (?d \<le> greatCircle p c)"
      if "\<bar>lat p\<bar> \<le> 90" "\<bar>lat c\<bar> \<le> 90" for p c :: "'a latlon_scheme"
      using that by (simp add: gpsDist_exact js_ge_def)
    show "\<bar>lat p\<bar> \<le> 90" using assms Cons by simp
    show "\<forall>c \<in> set ps. \<bar>lat c\<bar> \<le> 90" using assms Cons by simp
  qed
  then show ?thesis using Cons by (simp add: filterNoisyGps_pass greedyFilter_def)
qed

lemma greatCircle_equator:
  assumes "lat p = 0" "lat q = 0" "lon p \<le> lon q" "lon q - lon p \<le> 180"
  shows "greatCircle p q = 6371000 * ((lon q - lon p) * pi / 180)"
proof -
  have "(lon q - lon p) * pi \<le> 180 * pi"
    using assms by (intro mult_right_mono) simp_all
  then have a: "arccos (cos ((lon q - lon p) * pi / 180)) = (lon q - lon p) * pi / 180"
    using assms by (intro arccos_cos) simp_all
  have "greatCircle p q = 6371000 * arccos (cos ((lon q - lon p) * pi / 180))"
    using assms by (simp add: greatCircle_def)
  then show ?thesis by (simp only: a)
qed

lemma jitter_fix_near: "greatCircle \<lparr>lat = 0, lon = 0\<rparr> \<lparr>lat = 0, lon = 0.00005\<rparr> < 20"
proof -
  have "greatCircle \<lparr>lat = 0, lon = 0\<rparr> \<lparr>lat = 0, lon = 0.00005\<rparr>
      = 6371000 * ((0.00005 - 0) * pi / 180)"
    by (subst greatCircle_equator) simp_all
  also have "\<dots> < 20" using pi_less_4 by simp
  finally show ?thesis .
qed

lemma moved_fix_far: "20 \<le> greatCircle \<lparr>lat = 0, lon = 0\<rparr> \<lparr>lat = 0, lon = 0.001\<rparr>"
proof -
  have "greatCircle \<lparr>lat = 0, lon = 0\<rparr> \<lparr>lat = 0, lon = 0.001\<rparr>
      = 6371000 * ((0.001 - 0) * pi / 180)"
    by (subst greatCircle_equator) simp_all
  moreover have "(20::real) \<le> 6371000 * ((0.001 - 0) * pi / 180)" using pi_ge_two by simp
  ultimately show ?thesis by simp
qed

lemma spec_example_exact:
  "filterNoisyGps exactArith
       [\<lparr>lat = 0, lon = 0\<rparr>, \<lparr>lat = 0, lon = 0.00005\<rparr>, \<lparr>lat = 0, lon = 0.001\<rparr>] (Some 20)
     = [\<lparr>lat = 0, lon = 0\<rparr>, \<lparr>lat = 0, lon = 0.001\<rparr>]"
  using jitter_fix_near moved_fix_far
  by (subst filterNoisyGps_exact) (simp_all add: greedyFilter_def)

subsection \<open>The specification's example in double precision\<close>

text \<open>
  The result of an operation is within one part in \<open>2 ^ 53\<close> of the exact result, and
  the arc tangent of a number from 0 to 1 lies between its half and itself: enough to
  place the two distances of the example on their sides of the threshold.
\<close>

lemma roundEven_err: "\<bar>of_int (roundEven y) - y\<bar> \<le> 1 / 2"
proof -
  have "of_int \<lfloor>y\<rfloor> \<le> y" "y < of_int \<lfloor>y\<rfloor> + 1" by linarith+
  then show ?thesis
    by (auto simp: roundEven_def Let_def abs_le_iff)
qed

lemma fl_rel:
  assumes "pow2 (- 1022) \<le> \<bar>x\<bar>"
  shows "\<bar>fl x - x\<bar> \<le> \<bar>x\<bar> / 2 ^ 53"
proof -
  have "0 < pow2 (- 1022)" by (simp add: pow2_def)
  then have x0: "0 < \<bar>x\<bar>" using assms by linarith
  define e where "e = \<lfloor>log 2 \<bar>x\<bar>\<rfloor>"
  have "log 2 (pow2 (- 1022)) \<le> log 2 \<bar>x\<bar>"
    using assms x0 by (subst log_le_cancel_iff) (simp_all add: pow2_def)
  moreover have "log 2 (pow2 (- 1022)) = - 1022"
    by (simp add: pow2_powr)
  ultimately have "- 1022 \<le> e"
    unfolding e_def by (simp add: le_floor_iff)
  then have b: "binade x = e" by (simp add: binade_def e_def)
  have lo: "pow2 e \<le> \<bar>x\<bar>"
  proof -
    have "of_int e \<le> log 2 \<bar>x\<bar>" unfolding e_def by linarith
    then have "2 powr (of_int e) \<le> 2 powr (log 2 \<bar>x\<bar>)" by simp
    then show ?thesis using x0 by (simp add: pow2_powr)
  qed
  define q where "q = pow2 (e - 52)"
  have q0: "0 < q" by (simp add: q_def pow2_powr)
  have qe: "q * 2 ^ 52 = pow2 e"
    by (simp add: q_def pow2_powr powr_diff powr_realpow [symmetric])
  have "fl x - x = (of_int (roundEven (x / q)) - x / q) * q"
    using x0 q0 by (simp add: fl_def b q_def [symmetric] algebra_simps)
  then have "\<bar>fl x - x\<bar> = \<bar>of_int (roundEven (x / q)) - x / q\<bar> * q"
    using q0 by (simp add: abs_mult)
  also have "\<dots> \<le> 1 / 2 * q"
    using q0 roundEven_err [of "x / q"] by (intro mult_right_mono) simp_all
  also have "\<dots> = pow2 e / 2 ^ 53"
    using qe by simp
  also have "\<dots> \<le> \<bar>x\<bar> / 2 ^ 53"
    using lo by (simp add: divide_right_mono)
  finally show ?thesis .
qed

lemma arctan_le_self: "0 \<le> z \<Longrightarrow> arctan z \<le> z"
proof -
  assume z: "0 \<le> z"
  have "0 - arctan 0 \<le> z - arctan z"
  proof (rule DERIV_nonneg_imp_nondecreasing [OF z])
    fix x :: real
    assume "0 \<le> x" "x \<le> z"
    have "((\<lambda>x. x - arctan x) has_real_derivative 1 - inverse (1 + x ^ 2)) (at x)"
      by (auto intro!: derivative_eq_intros)
    moreover have "0 \<le> 1 - inverse (1 + x ^ 2)"
      by (simp add: inverse_le_1_iff)
    ultimately show "\<exists>y. ((\<lambda>x. x - arctan x) has_real_derivative y) (at x) \<and> 0 \<le> y"
      by blast
  qed
  then show ?thesis by simp
qed

lemma arctan_ge_half: "0 \<le> z \<Longrightarrow> z \<le> 1 \<Longrightarrow> z / 2 \<le> arctan z"
proof -
  assume z: "0 \<le> z" "z \<le> 1"
  have "arctan 0 - 0 / 2 \<le> arctan z - z / 2"
  proof (rule DERIV_nonneg_imp_nondecreasing [OF z(1)])
    fix x :: real
    assume x: "0 \<le> x" "x \<le> z"
    have "((\<lambda>x. arctan x - x / 2) has_real_derivative inverse (1 + x ^ 2) - 1 / 2) (at x)"
      by (auto intro!: derivative_eq_intros)
    moreover have "x ^ 2 \<le> 1" using x z by (simp add: power_le_one)
    then have "1 / 2 \<le> inverse (1 + x ^ 2)"
      by (simp add: inverse_eq_divide pos_le_divide_eq add_pos_nonneg)
    then have "0 \<le> inverse (1 + x ^ 2) - 1 / 2" by linarith
    ultimately show "\<exists>y. ((\<lambda>x. arctan x - x / 2) has_real_derivative y) (at x) \<and> 0 \<le> y"
      by blast
  qed
  then show ?thesis by simp
qed

lemma sum6:
  "(\<Sum>m<6. f m) = f 0 + f (Suc 0) + f 2 + f 3 + f 4 + f 5"
  for f :: "nat \<Rightarrow> real"
  by (simp add: numeral_eq_Suc)

lemma sin_coeffs6:
  "sin_coeff 0 = 0" "sin_coeff (Suc 0) = 1" "sin_coeff 2 = 0" "sin_coeff 3 = - 1 / 6"
  "sin_coeff 4 = 0" "sin_coeff 5 = 1 / 120"
  by (simp_all add: sin_coeff_def fact_numeral)

lemma sin_small:
  "\<bar>sin x - (x - x ^ 3 / 6 + x ^ 5 / 120)\<bar> \<le> \<bar>x\<bar> ^ 6 / 720" for x :: real
proof -
  have b: "\<bar>sin x - (\<Sum>m<6. sin_coeff m * x ^ m)\<bar> \<le> inverse (fact 6) * \<bar>x\<bar> ^ 6"
    by (rule Maclaurin_sin_bound)
  have p: "(\<Sum>m<6. sin_coeff m * x ^ m) = x - x ^ 3 / 6 + x ^ 5 / 120"
    by (simp add: sum6 sin_coeffs6)
  have f: "inverse (fact 6) = (1 / 720 :: real)"
    by (simp add: fact_numeral)
  show ?thesis
    using b unfolding p f by simp
qed

lemma fl_sin_h1: "fl (sin (4121042180594985 / 2 ^ 73)) = 2060521090297427 / 2 ^ 72"
proof -
  define x :: real where "x = 4121042180594985 / 2 ^ 73"
  define P where "P = x - x ^ 3 / 6 + x ^ 5 / 120"
  define s where "s = sin x"
  have d: "\<bar>s - P\<bar> \<le> \<bar>x\<bar> ^ 6 / 720"
    unfolding s_def P_def by (rule sin_small)
  have e: "\<bar>x\<bar> ^ 6 / 720 \<le> 1 / 2 ^ 120"
    unfolding x_def by (simp add: power_divide)
  have q: "\<bar>P * 2 ^ 74 - 8242084361189708\<bar> < 48 / 100"
    unfolding P_def x_def by (simp add: abs_less_iff power_divide)
  have b: "\<bar>s * 2 ^ 74 - 8242084361189708\<bar> < 49 / 100"
    using d e q unfolding abs_le_iff abs_less_iff by simp
  have "fl s = of_int 8242084361189708 * pow2 (- 22 - 52)"
  proof (rule fl_near)
    show "\<bar>s / pow2 (- 22 - 52) - of_int 8242084361189708\<bar> < 1 / 2"
      using b by (simp add: pow2_def)
    have "0 < s" using b unfolding abs_less_iff by simp
    then show "pow2 (- 22) \<le> \<bar>s\<bar>" using b unfolding abs_less_iff by (simp add: pow2_def)
    show "\<bar>s\<bar> < pow2 (- 22 + 1)" using b unfolding abs_less_iff by (simp add: pow2_def)
  qed simp
  then show ?thesis by (simp add: s_def x_def pow2_def)
qed

lemma fl_sin_h2: "fl (sin (1287825681435933 / 2 ^ 67)) = 2575651362839175 / 2 ^ 68"
proof -
  define x :: real where "x = 1287825681435933 / 2 ^ 67"
  define P where "P = x - x ^ 3 / 6 + x ^ 5 / 120"
  define s where "s = sin x"
  have d: "\<bar>s - P\<bar> \<le> \<bar>x\<bar> ^ 6 / 720"
    unfolding s_def P_def by (rule sin_small)
  have e: "\<bar>x\<bar> ^ 6 / 720 \<le> 1 / 2 ^ 100"
    unfolding x_def by (simp add: power_divide)
  have q: "\<bar>P * 2 ^ 69 - 5151302725678350\<bar> < 40 / 100"
    unfolding P_def x_def by (simp add: abs_less_iff power_divide)
  have b: "\<bar>s * 2 ^ 69 - 5151302725678350\<bar> < 41 / 100"
    using d e q unfolding abs_le_iff abs_less_iff by simp
  have "fl s = of_int 5151302725678350 * pow2 (- 17 - 52)"
  proof (rule fl_near)
    show "\<bar>s / pow2 (- 17 - 52) - of_int 5151302725678350\<bar> < 1 / 2"
      using b by (simp add: pow2_def)
    have "0 < s" using b unfolding abs_less_iff by simp
    then show "pow2 (- 17) \<le> \<bar>s\<bar>" using b unfolding abs_less_iff by (simp add: pow2_def)
    show "\<bar>s\<bar> < pow2 (- 17 + 1)" using b unfolding abs_less_iff by (simp add: pow2_def)
  qed simp
  then show ?thesis by (simp add: s_def x_def pow2_def)
qed

lemma fl_sqrt:
  assumes "0 \<le> lo" "lo ^ 2 < t" "t < hi ^ 2" "0 \<le> hi"
    "lo = (of_int M - 1 / 2) * pow2 (e - 52)" "hi = (of_int M + 1 / 2) * pow2 (e - 52)"
    "pow2 e \<le> lo" "hi \<le> pow2 (e + 1)" "- 1022 \<le> e"
  shows "fl (sqrt t) = of_int M * pow2 (e - 52)"
proof (rule fl_near)
  have q0: "0 < pow2 (e - 52)" by (simp add: pow2_powr)
  have l: "lo < sqrt t" using assms(1,2) by (simp add: real_less_rsqrt)
  have h: "sqrt t < hi"
    using assms(3,4) by (intro real_less_lsqrt) simp_all
  have "of_int M - 1 / 2 < sqrt t / pow2 (e - 52)"
    using l q0 unfolding assms(5) by (simp add: pos_less_divide_eq)
  moreover have "sqrt t / pow2 (e - 52) < of_int M + 1 / 2"
    using h q0 unfolding assms(6) by (simp add: pos_divide_less_eq)
  ultimately show "\<bar>sqrt t / pow2 (e - 52) - of_int M\<bar> < 1 / 2"
    by linarith
  have "0 < sqrt t" using l assms(1) by linarith
  then show "pow2 e \<le> \<bar>sqrt t\<bar>" using l assms(7) by simp
  show "\<bar>sqrt t\<bar> < pow2 (e + 1)" using h assms(8) \<open>0 < sqrt t\<close> by simp
  show "- 1022 \<le> e" by (rule assms(9))
qed

lemma binary64_more:
  "Math_sqrt binary64 x = fl (sqrt x)" "Math_atan2 binary64 y x = fl (atan2 y x)"
  by (simp_all add: binary64_def)

lemma fl_zero: "fl 0 = 0"
  by (simp add: fl_def)

text \<open>
  The distance computed lies within the rounding of the arc tangent and of the product.
\<close>

lemma scaled_arctan_bounds:
  assumes "1 / 2 ^ 30 \<le> z" "z \<le> 1"
  shows "12742000 * (z / 2) * ((1 - 1 / 2 ^ 53) * (1 - 1 / 2 ^ 53))
           \<le> fl (12742000 * fl (arctan z))"
    and "fl (12742000 * fl (arctan z))
           \<le> 12742000 * z * ((1 + 1 / 2 ^ 53) * (1 + 1 / 2 ^ 53))"
proof -
  define u :: real where "u = 1 / 2 ^ 53"
  define a where "a = arctan z"
  define A where "A = fl a"
  define B where "B = fl (12742000 * A)"
  have u0: "0 < u" "u < 1" by (simp_all add: u_def)
  have z0: "0 \<le> z" using assms(1) by (rule order_trans [rotated]) simp
  have small: "pow2 (- 1022) \<le> 1 / 2 ^ 32"
    by (simp add: pow2_def power_increasing divide_le_eq)
  have a_lo: "z / 2 \<le> a" unfolding a_def using z0 assms(2) by (rule arctan_ge_half)
  have a_hi: "a \<le> z" unfolding a_def using z0 by (rule arctan_le_self)
  have a_pos: "1 / 2 ^ 31 \<le> a" using a_lo assms(1) by simp
  then have a0: "0 < a" by (rule less_le_trans [rotated]) simp
  have "pow2 (- 1022) \<le> \<bar>a\<bar>" using small a_pos a0 by simp
  then have "\<bar>A - a\<bar> \<le> \<bar>a\<bar> / 2 ^ 53" unfolding A_def by (rule fl_rel)
  then have A1: "a * (1 - u) \<le> A" and A2: "A \<le> a * (1 + u)"
    using a0 unfolding abs_le_iff by (simp_all add: u_def algebra_simps)
  have "(z / 2) * (1 - u) \<le> a * (1 - u)"
    using a_lo u0 by (intro mult_right_mono) simp_all
  then have A_lo: "(z / 2) * (1 - u) \<le> A" using A1 by linarith
  have "a * (1 + u) \<le> z * (1 + u)"
    using a_hi u0 by (intro mult_right_mono) simp_all
  then have A_hi: "A \<le> z * (1 + u)" using A2 by linarith
  have "1 / 2 ^ 31 * (1 - u) \<le> (z / 2) * (1 - u)"
    using assms(1) u0 by (intro mult_right_mono) simp_all
  moreover have "(1 / 2 ^ 32 :: real) \<le> 1 / 2 ^ 31 * (1 - u)" by (simp add: u_def)
  ultimately have A_pos: "1 / 2 ^ 32 \<le> A" using A_lo by linarith
  then have A0: "0 < A" by (rule less_le_trans [rotated]) simp
  have "pow2 (- 1022) \<le> \<bar>12742000 * A\<bar>" using small A_pos A0 by simp
  then have "\<bar>B - 12742000 * A\<bar> \<le> \<bar>12742000 * A\<bar> / 2 ^ 53" unfolding B_def by (rule fl_rel)
  then have B1: "12742000 * A * (1 - u) \<le> B" and B2: "B \<le> 12742000 * A * (1 + u)"
    using A0 unfolding abs_le_iff by (simp_all add: u_def algebra_simps)
  have "12742000 * ((z / 2) * (1 - u)) * (1 - u) \<le> 12742000 * A * (1 - u)"
    using A_lo u0 by (intro mult_right_mono mult_left_mono) simp_all
  then show "12742000 * (z / 2) * ((1 - 1 / 2 ^ 53) * (1 - 1 / 2 ^ 53))
           \<le> fl (12742000 * fl (arctan z))"
    using B1 unfolding B_def A_def a_def u_def by (simp add: algebra_simps)
  have "12742000 * A * (1 + u) \<le> 12742000 * (z * (1 + u)) * (1 + u)"
    using A_hi u0 by (intro mult_right_mono mult_left_mono) simp_all
  then show "fl (12742000 * fl (arctan z))
           \<le> 12742000 * z * ((1 + 1 / 2 ^ 53) * (1 + 1 / 2 ^ 53))"
    using B2 unfolding B_def A_def a_def u_def by (simp add: algebra_simps)
qed

lemma equator_steps:
  assumes "lat p = 0" "lat q = 0"
  shows "rnd binary64
           (Math_sin binary64
              (rnd binary64
                 (rnd binary64 (rnd binary64 (rnd binary64 (lat q - lat p) * Math_PI binary64) / 180)
                  / 2))
            * Math_sin binary64
                (rnd binary64
                   (rnd binary64 (rnd binary64 (rnd binary64 (lat q - lat p) * Math_PI binary64) / 180)
                    / 2))) = 0"
    and "rnd binary64
           (Math_cos binary64 (rnd binary64 (rnd binary64 (lat p * Math_PI binary64) / 180))
            * Math_cos binary64 (rnd binary64 (rnd binary64 (lat q * Math_PI binary64) / 180))) = 1"
  by (simp_all add: assms binary64_fields fl_zero fl_one)

lemma near_term:
  assumes "lat p = 0" "lon p = 0" "lat q = 0" "lon q = 0.00005"
  shows "haversineTerm binary64 p q = 7541962012354903 / 2 ^ 95"
proof -
  let ?r = "rnd binary64"
  let ?PI = "Math_PI binary64"
  have d1: "?r (lon q - lon p) = 7378697629483821 / 2 ^ 67"
    unfolding assms binary64_fields
    by (simp, subst fl_eval [where e = "- 15"]) (simp_all add: pow2_def roundEven_def)
  have d2: "?r (7378697629483821 / 2 ^ 67 * ?PI) = 2897607783230849 / 2 ^ 64"
    unfolding binary64_fields
    by (subst fl_eval [where e = "- 13"]) (simp_all add: pow2_def roundEven_def)
  have d3: "?r (2897607783230849 / 2 ^ 64 / 180) = 4121042180594985 / 2 ^ 72"
    unfolding binary64_fields
    by (subst fl_eval [where e = "- 21"]) (simp_all add: pow2_def roundEven_def)
  have d4: "?r (4121042180594985 / 2 ^ 72 / 2) = 4121042180594985 / 2 ^ 73"
    unfolding binary64_fields
    by (subst fl_eval [where e = "- 22"]) (simp_all add: pow2_def roundEven_def)
  have d5: "Math_sin binary64 (4121042180594985 / 2 ^ 73) = 2060521090297427 / 2 ^ 72"
    unfolding binary64_fields by (rule fl_sin_h1)
  have d6: "?r (1 * (2060521090297427 / 2 ^ 72)) = 2060521090297427 / 2 ^ 72"
    unfolding binary64_fields
    by (subst fl_eval [where e = "- 22"]) (simp_all add: pow2_def roundEven_def)
  have d7: "?r (2060521090297427 / 2 ^ 72 * (2060521090297427 / 2 ^ 72))
      = 7541962012354903 / 2 ^ 95"
    unfolding binary64_fields
    by (subst fl_eval [where e = "- 43"]) (simp_all add: pow2_def roundEven_def)
  have e1: "?r (0 + 7541962012354903 / 2 ^ 95) = 7541962012354903 / 2 ^ 95"
    unfolding binary64_fields
    by (subst fl_eval [where e = "- 43"]) (simp_all add: pow2_def roundEven_def)
  show ?thesis
    by (simp only: haversineTerm_def Let_def equator_steps [OF assms(1,3)]
        d1 d2 d3 d4 d5 d6 d7 e1)
qed

lemma near_dist:
  assumes "lat p = 0" "lon p = 0" "lat q = 0" "lon q = 0.00005"
  shows "\<exists>d. gpsDist binary64 p q = Some d \<and> d < 20"
proof -
  let ?r = "rnd binary64"
  define z :: real where "z = 2060521090297427 / 2 ^ 72 / (4503599627370067 / 2 ^ 52)"
  have u: "?r (1 - 7541962012354903 / 2 ^ 95) = 9007199254739277 / 2 ^ 53"
    unfolding binary64_fields
    by (subst fl_eval [where e = "- 1"]) (simp_all add: pow2_def roundEven_def)
  have q1: "Math_sqrt binary64 (7541962012354903 / 2 ^ 95) = 2060521090297427 / 2 ^ 72"
  proof -
    have "fl (sqrt (7541962012354903 / 2 ^ 95)) = of_int 8242084361189708 * pow2 (- 22 - 52)"
      by (rule fl_sqrt [where lo = "(8242084361189708 - 1 / 2) / 2 ^ 74"
            and hi = "(8242084361189708 + 1 / 2) / 2 ^ 74"])
         (simp_all add: pow2_def power_divide)
    then show ?thesis by (simp add: binary64_more pow2_def)
  qed
  have q2: "Math_sqrt binary64 (9007199254739277 / 2 ^ 53) = 4503599627370067 / 2 ^ 52"
  proof -
    have "fl (sqrt (9007199254739277 / 2 ^ 53)) = of_int 9007199254740134 * pow2 (- 1 - 52)"
      by (rule fl_sqrt [where lo = "(9007199254740134 - 1 / 2) / 2 ^ 53"
            and hi = "(9007199254740134 + 1 / 2) / 2 ^ 53"])
         (simp_all add: pow2_def power_divide)
    then show ?thesis by (simp add: binary64_more pow2_def)
  qed
  have at: "Math_atan2 binary64 (2060521090297427 / 2 ^ 72) (4503599627370067 / 2 ^ 52)
      = fl (arctan z)"
    by (simp add: binary64_more atan2_def z_def)
  have k: "?r (6371000 * 2) = 12742000"
    unfolding binary64_fields
    by (simp, subst fl_eval [where e = 23]) (simp_all add: pow2_def roundEven_def)
  have g: "gpsDist binary64 p q = Some (fl (12742000 * fl (arctan z)))"
    unfolding gpsDist_def Let_def near_term [OF assms] u q1 q2 at k
    by (simp add: binary64_fields)
  have "fl (12742000 * fl (arctan z)) \<le> 12742000 * z * ((1 + 1 / 2 ^ 53) * (1 + 1 / 2 ^ 53))"
    by (rule scaled_arctan_bounds) (simp_all add: z_def)
  also have "\<dots> < 20" by (simp add: z_def)
  finally show ?thesis using g by simp
qed

lemma far_term:
  assumes "lat p = 0" "lon p = 0" "lat q = 0" "lon q = 0.001"
  shows "haversineTerm binary64 p q = 2946078911001537 / 2 ^ 85"
proof -
  let ?r = "rnd binary64"
  let ?PI = "Math_PI binary64"
  have d1: "?r (lon q - lon p) = 1152921504606847 / 2 ^ 60"
    unfolding assms binary64_fields
    by (simp, subst fl_eval [where e = "- 10"]) (simp_all add: pow2_def roundEven_def)
  have d2: "?r (1152921504606847 / 2 ^ 60 * ?PI) = 7244019458077123 / 2 ^ 61"
    unfolding binary64_fields
    by (subst fl_eval [where e = "- 9"]) (simp_all add: pow2_def roundEven_def)
  have d3: "?r (7244019458077123 / 2 ^ 61 / 180) = 1287825681435933 / 2 ^ 66"
    unfolding binary64_fields
    by (subst fl_eval [where e = "- 16"]) (simp_all add: pow2_def roundEven_def)
  have d4: "?r (1287825681435933 / 2 ^ 66 / 2) = 1287825681435933 / 2 ^ 67"
    unfolding binary64_fields
    by (subst fl_eval [where e = "- 17"]) (simp_all add: pow2_def roundEven_def)
  have d5: "Math_sin binary64 (1287825681435933 / 2 ^ 67) = 2575651362839175 / 2 ^ 68"
    unfolding binary64_fields by (rule fl_sin_h2)
  have d6: "?r (1 * (2575651362839175 / 2 ^ 68)) = 2575651362839175 / 2 ^ 68"
    unfolding binary64_fields
    by (subst fl_eval [where e = "- 17"]) (simp_all add: pow2_def roundEven_def)
  have d7: "?r (2575651362839175 / 2 ^ 68 * (2575651362839175 / 2 ^ 68))
      = 2946078911001537 / 2 ^ 85"
    unfolding binary64_fields
    by (subst fl_eval [where e = "- 34"]) (simp_all add: pow2_def roundEven_def)
  have e1: "?r (0 + 2946078911001537 / 2 ^ 85) = 2946078911001537 / 2 ^ 85"
    unfolding binary64_fields
    by (subst fl_eval [where e = "- 34"]) (simp_all add: pow2_def roundEven_def)
  show ?thesis
    by (simp only: haversineTerm_def Let_def equator_steps [OF assms(1,3)]
        d1 d2 d3 d4 d5 d6 d7 e1)
qed

lemma far_dist:
  assumes "lat p = 0" "lon p = 0" "lat q = 0" "lon q = 0.001"
  shows "\<exists>d. gpsDist binary64 p q = Some d \<and> 20 \<le> d"
proof -
  let ?r = "rnd binary64"
  define z :: real where "z = 2575651362839175 / 2 ^ 68 / (9007199254398023 / 2 ^ 53)"
  have u: "?r (1 - 2946078911001537 / 2 ^ 85) = 9007199254055055 / 2 ^ 53"
    unfolding binary64_fields
    by (subst fl_eval [where e = "- 1"]) (simp_all add: pow2_def roundEven_def)
  have q1: "Math_sqrt binary64 (2946078911001537 / 2 ^ 85) = 2575651362839175 / 2 ^ 68"
  proof -
    have "fl (sqrt (2946078911001537 / 2 ^ 85)) = of_int 5151302725678350 * pow2 (- 17 - 52)"
      by (rule fl_sqrt [where lo = "(5151302725678350 - 1 / 2) / 2 ^ 69"
            and hi = "(5151302725678350 + 1 / 2) / 2 ^ 69"])
         (simp_all add: pow2_def power_divide)
    then show ?thesis by (simp add: binary64_more pow2_def)
  qed
  have q2: "Math_sqrt binary64 (9007199254055055 / 2 ^ 53) = 9007199254398023 / 2 ^ 53"
  proof -
    have "fl (sqrt (9007199254055055 / 2 ^ 53)) = of_int 9007199254398023 * pow2 (- 1 - 52)"
      by (rule fl_sqrt [where lo = "(9007199254398023 - 1 / 2) / 2 ^ 53"
            and hi = "(9007199254398023 + 1 / 2) / 2 ^ 53"])
         (simp_all add: pow2_def power_divide)
    then show ?thesis by (simp add: binary64_more pow2_def)
  qed
  have at: "Math_atan2 binary64 (2575651362839175 / 2 ^ 68) (9007199254398023 / 2 ^ 53)
      = fl (arctan z)"
    by (simp add: binary64_more atan2_def z_def)
  have k: "?r (6371000 * 2) = 12742000"
    unfolding binary64_fields
    by (simp, subst fl_eval [where e = 23]) (simp_all add: pow2_def roundEven_def)
  have g: "gpsDist binary64 p q = Some (fl (12742000 * fl (arctan z)))"
    unfolding gpsDist_def Let_def far_term [OF assms] u q1 q2 at k
    by (simp add: binary64_fields)
  have "(20 :: real) \<le> 12742000 * (z / 2) * ((1 - 1 / 2 ^ 53) * (1 - 1 / 2 ^ 53))"
    by (simp add: z_def)
  also have "\<dots> \<le> fl (12742000 * fl (arctan z))"
    by (rule scaled_arctan_bounds) (simp_all add: z_def)
  finally show ?thesis using g by simp
qed

lemma spec_example_binary64:
  "filterNoisyGps binary64
       [\<lparr>lat = 0, lon = 0\<rparr>, \<lparr>lat = 0, lon = 0.00005\<rparr>, \<lparr>lat = 0, lon = 0.001\<rparr>] (Some 20)
     = [\<lparr>lat = 0, lon = 0\<rparr>, \<lparr>lat = 0, lon = 0.001\<rparr>]"
proof -
  obtain d1 where n: "gpsDist binary64 \<lparr>lat = 0, lon = 0\<rparr> \<lparr>lat = 0, lon = 0.00005\<rparr> = Some d1"
      "d1 < 20"
    using near_dist [of "\<lparr>lat = 0, lon = 0\<rparr>" "\<lparr>lat = 0, lon = 0.00005\<rparr>"] by auto
  obtain d2 where f: "gpsDist binary64 \<lparr>lat = 0, lon = 0\<rparr> \<lparr>lat = 0, lon = 0.001\<rparr> = Some d2"
      "20 \<le> d2"
    using far_dist [of "\<lparr>lat = 0, lon = 0\<rparr>" "\<lparr>lat = 0, lon = 0.001\<rparr>"] by auto
  show ?thesis
    using n f by (simp add: filterNoisyGps_pass js_ge_def)
qed

subsection \<open>Two fixes opposite each other\<close>

text \<open>The fixes \<open>(-12, -179)\<close> and \<open>(12, 1)\<close> are opposite each other.\<close>

lemma antipodal_far:
  "greatCircle \<lparr>lat = - 12, lon = - 179\<rparr> \<lparr>lat = 12, lon = 1\<rparr> = 6371000 * pi"
proof -
  have "sin (- 12 * pi / 180) * sin (12 * pi / 180)
        + cos (- 12 * pi / 180) * cos (12 * pi / 180) * cos ((1 - - 179) * pi / 180) = - 1"
  proof -
    have "sin (12 * pi / 180) * sin (12 * pi / 180) + cos (12 * pi / 180) * cos (12 * pi / 180) = 1"
      using sin_cos_squared_add [of "12 * pi / 180"] by (simp add: power2_eq_square)
    moreover have "sin (- 12 * pi / 180) = - sin (12 * pi / 180)"
      using sin_minus [of "12 * pi / 180"] by simp
    moreover have "cos (- 12 * pi / 180) = cos (12 * pi / 180)"
      using cos_minus [of "12 * pi / 180"] by simp
    moreover have "cos ((1 - - 179) * pi / 180) = - 1" by simp
    ultimately show ?thesis by (simp add: algebra_simps)
  qed
  then show ?thesis by (simp add: greatCircle_def)
qed

text \<open>
  C7. The worker's comment has the filter remove the fixes that are less than the
  threshold apart, and the specification keeps a fix exactly when its great-circle
  distance from the last kept fix is at least the threshold. In double-precision
  arithmetic the fix \<open>(12, 1)\<close> after the fix \<open>(-12, -179)\<close>, half the way round the sphere,
  is dropped at a threshold of 20 metres: the value \<open>fa\<close> comes out as \<open>1 + 2 ^ -52\<close>, the
  square root of \<open>1 - fa\<close> is NaN, so is the distance, and the comparison with the
  threshold is false. The great-circle distance of the two fixes is \<open>6371000 * pi\<close> metres,
  and the specification's filter keeps both.
\<close>

theorem antipodal_fix_dropped:
  "filterNoisyGps binary64 [\<lparr>lat = - 12, lon = - 179\<rparr>, \<lparr>lat = 12, lon = 1\<rparr>] (Some 20)
     = [\<lparr>lat = - 12, lon = - 179\<rparr>]
   \<and> gpsDist binary64 \<lparr>lat = - 12, lon = - 179\<rparr> \<lparr>lat = 12, lon = 1\<rparr> = None
   \<and> greatCircle \<lparr>lat = - 12, lon = - 179\<rparr> \<lparr>lat = 12, lon = 1\<rparr> = 6371000 * pi
   \<and> greedyFilter 20 [\<lparr>lat = - 12, lon = - 179\<rparr>, \<lparr>lat = 12, lon = 1\<rparr>]
     = [\<lparr>lat = - 12, lon = - 179\<rparr>, \<lparr>lat = 12, lon = 1\<rparr>]"
proof -
  let ?p = "\<lparr>lat = - 12, lon = - 179\<rparr>"
  let ?q = "\<lparr>lat = 12, lon = 1\<rparr>"
  have n: "gpsDist binary64 ?p ?q = None"
    by (rule antipodal_nan) simp_all
  have f: "filterNoisyGps binary64 [?p, ?q] (Some 20) = [?p]"
    by (rule nan_is_dropped [OF n])
  have "(20 :: real) \<le> 6371000 * pi" using pi_ge_two by simp
  then have g: "greedyFilter 20 [?p, ?q] = [?p, ?q]"
    by (simp add: greedyFilter_def antipodal_far)
  show ?thesis
    by (intro conjI) (rule f, rule n, rule antipodal_far, rule g)
qed

section \<open>Properties of the route cache key\<close>

declare digitsOf.simps [simp del]

lemma ten_cases:
  "d < 10 \<Longrightarrow> d = 0 \<or> d = 1 \<or> d = 2 \<or> d = 3 \<or> d = 4 \<or> d = 5 \<or> d = 6 \<or> d = 7 \<or> d = 8 \<or> d = (9::nat)"
  by arith

lemma digitVal_digitChar: "d < 10 \<Longrightarrow> digitVal (digitChar d) = d"
  by (drule ten_cases, elim disjE) (simp_all add: digitChar_def digitVal_def)

lemma digitChar_isDigit: "d < 10 \<Longrightarrow> isDigit (digitChar d)"
  unfolding digitChar_def isDigit_def by (rule nth_mem) simp

lemma digitsOf_isDigit: "c \<in> set (digitsOf n) \<Longrightarrow> isDigit c"
proof (induction n rule: digitsOf.induct)
  case (1 n)
  have d: "isDigit (digitChar (n mod 10))" by (rule digitChar_isDigit) simp
  show ?case
  proof (cases "n < 10")
    case True
    then have "digitsOf n = [digitChar (n mod 10)]" by (subst digitsOf.simps) simp
    with "1.prems" d show ?thesis by simp
  next
    case False
    then have "digitsOf n = digitsOf (n div 10) @ [digitChar (n mod 10)]"
      by (subst digitsOf.simps) simp
    with "1.prems" "1.IH" False d show ?thesis by auto
  qed
qed

lemma digitsOf_nonempty: "digitsOf n \<noteq> []"
  by (subst digitsOf.simps) simp

lemma valOf_snoc: "valOf (cs @ [c]) = 10 * valOf cs + digitVal c"
  by (simp add: valOf_def)

lemma valOf_digitsOf: "valOf (digitsOf n) = n"
proof (induction n rule: digitsOf.induct)
  case (1 n)
  have v: "digitVal (digitChar (n mod 10)) = n mod 10" by (rule digitVal_digitChar) simp
  show ?case
  proof (cases "n < 10")
    case True
    then have "digitsOf n = [] @ [digitChar (n mod 10)]" by (subst digitsOf.simps) simp
    then have "valOf (digitsOf n) = 10 * valOf [] + n mod 10"
      by (simp only: valOf_snoc v)
    then show ?thesis using True by (simp add: valOf_def)
  next
    case False
    then have "digitsOf n = digitsOf (n div 10) @ [digitChar (n mod 10)]"
      by (subst digitsOf.simps) simp
    then have "valOf (digitsOf n) = 10 * valOf (digitsOf (n div 10)) + n mod 10"
      by (simp only: valOf_snoc v)
    then show ?thesis using "1.IH" False by simp
  qed
qed

lemma valOf_zeros: "valOf (replicate k CHR ''0'' @ cs) = valOf cs"
proof -
  have "foldl (\<lambda>a c. 10 * a + digitVal c) 0 (replicate k CHR ''0'') = 0"
    by (induction k) (simp_all add: digitVal_def)
  then show ?thesis by (simp add: valOf_def)
qed


lemma fixedDigits_padded:
  "fixedDigits n =
     take (length (paddedDigits n) - 5) (paddedDigits n) @ ''.''
       @ drop (length (paddedDigits n) - 5) (paddedDigits n)"
  by (simp add: fixedDigits_def paddedDigits_def Let_def)

lemma isDigit_zero: "isDigit CHR ''0''"
  by (simp add: isDigit_def)

lemma paddedDigits_isDigit: "c \<in> set (paddedDigits n) \<Longrightarrow> isDigit c"
  using digitsOf_isDigit [of c n] isDigit_zero
  by (auto simp: paddedDigits_def Let_def split: if_splits)

lemma digitsOf_zero: "(if n = 0 then ''0'' else digitsOf n) = digitsOf n"
  by (cases "n = 0") (simp_all add: digitsOf.simps [of 0] digitChar_def)

lemma valOf_paddedDigits: "valOf (paddedDigits n) = n"
proof (cases "length (digitsOf n) \<le> 5")
  case True
  then have "paddedDigits n = replicate (5 + 1 - length (digitsOf n)) CHR ''0'' @ digitsOf n"
    by (simp add: paddedDigits_def digitsOf_zero Let_def)
  then show ?thesis by (simp only: valOf_zeros valOf_digitsOf)
next
  case False
  then have "paddedDigits n = digitsOf n"
    by (simp add: paddedDigits_def digitsOf_zero Let_def)
  then show ?thesis by (simp only: valOf_digitsOf)
qed

lemma filter_isDigit_id: "(\<And>c. c \<in> set cs \<Longrightarrow> isDigit c) \<Longrightarrow> filter isDigit cs = cs"
  by (induction cs) auto

lemma not_isDigit_point: "\<not> isDigit CHR ''.''"
  by (simp add: isDigit_def)

lemma filter_fixedDigits: "filter isDigit (fixedDigits n) = paddedDigits n"
proof -
  let ?p = "paddedDigits n"
  let ?k = "length ?p - 5"
  have a: "filter isDigit (take ?k ?p) = take ?k ?p"
    by (rule filter_isDigit_id) (meson in_set_takeD paddedDigits_isDigit)
  have b: "filter isDigit (drop ?k ?p) = drop ?k ?p"
    by (rule filter_isDigit_id) (meson in_set_dropD paddedDigits_isDigit)
  have "filter isDigit (fixedDigits n) = take ?k ?p @ drop ?k ?p"
    by (simp add: fixedDigits_padded a b not_isDigit_point)
  then show ?thesis by simp
qed

lemma valOf_fixedDigits: "valOf (filter isDigit (fixedDigits n)) = n"
  by (simp add: filter_fixedDigits valOf_paddedDigits)

lemma fixedDigits_inj: "fixedDigits m = fixedDigits n \<Longrightarrow> m = n"
  by (metis valOf_fixedDigits)

lemma fixedDigits_chars: "c \<in> set (fixedDigits n) \<Longrightarrow> isDigit c \<or> c = CHR ''.''"
proof -
  assume "c \<in> set (fixedDigits n)"
  then have "c \<in> set (take (length (paddedDigits n) - 5) (paddedDigits n))
      \<or> c = CHR ''.'' \<or> c \<in> set (drop (length (paddedDigits n) - 5) (paddedDigits n))"
    by (auto simp add: fixedDigits_padded)
  then show ?thesis
    by (meson in_set_takeD in_set_dropD paddedDigits_isDigit)
qed

lemma fixedDigits_nonempty: "fixedDigits n \<noteq> []"
  by (simp add: fixedDigits_padded)

lemma toFixed5_fixed5:
  "toFixed5 x = (if fst (fixed5 x) then ''-'' else []) @ fixedDigits (snd (fixed5 x))"
  by (simp add: toFixed5_def fixed5_def Let_def abs_if)

lemma not_isDigit_minus: "\<not> isDigit CHR ''-''"
  by (simp add: isDigit_def)

lemma fixedDigits_no_minus: "CHR ''-'' \<notin> set (fixedDigits n)"
  using fixedDigits_chars [of "CHR ''-''" n] not_isDigit_minus by auto

lemma toFixed5_eq_iff: "toFixed5 x = toFixed5 y \<longleftrightarrow> fixed5 x = fixed5 y"
proof
  assume "fixed5 x = fixed5 y"
  then show "toFixed5 x = toFixed5 y" by (simp add: toFixed5_fixed5)
next
  assume eq: "toFixed5 x = toFixed5 y"
  have hd: "hd (fixedDigits n) \<noteq> CHR ''-''" for n
    using fixedDigits_no_minus [of n] fixedDigits_nonempty [of n] hd_in_set by metis
  have sign: "fst (fixed5 x) = fst (fixed5 y)"
  proof (rule ccontr)
    assume "fst (fixed5 x) \<noteq> fst (fixed5 y)"
    then consider "fst (fixed5 x)" "\<not> fst (fixed5 y)" | "\<not> fst (fixed5 x)" "fst (fixed5 y)"
      by blast
    then show False
    proof cases
      case 1
      then have "CHR ''-'' # fixedDigits (snd (fixed5 x)) = fixedDigits (snd (fixed5 y))"
        using eq by (simp add: toFixed5_fixed5)
      then show False using hd [of "snd (fixed5 y)"] by (metis list.sel(1))
    next
      case 2
      then have "fixedDigits (snd (fixed5 x)) = CHR ''-'' # fixedDigits (snd (fixed5 y))"
        using eq by (simp add: toFixed5_fixed5)
      then show False using hd [of "snd (fixed5 x)"] by (metis list.sel(1))
    qed
  qed
  then have "fixedDigits (snd (fixed5 x)) = fixedDigits (snd (fixed5 y))"
    using eq by (simp add: toFixed5_fixed5)
  then have "snd (fixed5 x) = snd (fixed5 y)" by (rule fixedDigits_inj)
  with sign show "fixed5 x = fixed5 y" by (simp add: prod_eq_iff)
qed

lemma toFixed5_chars:
  "c \<in> set (toFixed5 x) \<Longrightarrow> isDigit c \<or> c = CHR ''.'' \<or> c = CHR ''-''"
  using fixedDigits_chars [of c] by (auto simp: toFixed5_fixed5 split: if_splits)


subsection \<open>Keys are read back uniquely\<close>

lemma split_unique:
  assumes "c \<notin> set x" "c \<notin> set y" "x @ c # r = y @ c # r'"
  shows "x = y \<and> r = r'"
proof -
  have "takeWhile (\<lambda>a. a \<noteq> c) (x @ c # r) = x" "takeWhile (\<lambda>a. a \<noteq> c) (y @ c # r') = y"
    using assms(1,2) by (auto simp add: takeWhile_tail)
  then have "x = y" using assms(3) by simp
  then show ?thesis using assms(3) by simp
qed

lemma join_Cons: "join sep (x # xs) = (if xs = [] then x else x @ sep @ join sep xs)"
  by (cases xs) simp_all

lemma join_inj:
  assumes "\<And>x. x \<in> set xs \<union> set ys \<Longrightarrow> c \<notin> set x \<and> x \<noteq> []"
    and "join [c] xs = join [c] ys"
  shows "xs = ys"
  using assms
proof (induction xs arbitrary: ys)
  case Nil
  show ?case
  proof (cases ys)
    case (Cons y ys')
    then have "y \<noteq> []" using Nil.prems(1) by simp
    then show ?thesis using Nil.prems(2) Cons by (simp add: join_Cons split: if_splits)
  qed simp
next
  case (Cons x xs)
  have x: "c \<notin> set x" "x \<noteq> []" using Cons.prems(1) by simp_all
  show ?case
  proof (cases ys)
    case Nil
    then show ?thesis using Cons.prems(2) x by (simp add: join_Cons split: if_splits)
  next
    case ys: (Cons y ys')
    have y: "c \<notin> set y" using Cons.prems(1) ys by simp
    have eq: "join [c] (x # xs) = join [c] (y # ys')" using Cons.prems(2) ys by simp
    show ?thesis
    proof (cases "xs = []")
      case xe: True
      show ?thesis
      proof (cases "ys' = []")
        case True
        then show ?thesis using eq xe ys by (simp add: join_Cons)
      next
        case False
        then have "x = y @ c # join [c] ys'" using eq xe by (simp add: join_Cons)
        then have "c \<in> set x" by simp
        then show ?thesis using x by simp
      qed
    next
      case xne: False
      show ?thesis
      proof (cases "ys' = []")
        case True
        then have "y = x @ c # join [c] xs" using eq xne by (simp add: join_Cons)
        then have "c \<in> set y" by simp
        then show ?thesis using y by simp
      next
        case False
        then have "x @ c # join [c] xs = y @ c # join [c] ys'"
          using eq xne by (simp add: join_Cons)
        then have "x = y \<and> join [c] xs = join [c] ys'"
          by (rule split_unique [OF x(1) y])
        moreover have "\<And>z. z \<in> set xs \<union> set ys' \<Longrightarrow> c \<notin> set z \<and> z \<noteq> []"
          using Cons.prems(1) ys by auto
        ultimately show ?thesis using Cons.IH [of ys'] ys by simp
      qed
    qed
  qed
qed

lemma isDigit_not_sep: "isDigit c \<Longrightarrow> c \<noteq> CHR '','' \<and> c \<noteq> CHR '';''"
  by (auto simp: isDigit_def)

lemma toFixed5_no_sep: "CHR '','' \<notin> set (toFixed5 x) \<and> CHR '';'' \<notin> set (toFixed5 x)"
  using toFixed5_chars [of "CHR '',''" x] toFixed5_chars [of "CHR '';''" x] isDigit_not_sep
  by auto

lemma stopText_eq_iff:
  "toFixed5 (lon s) @ '','' @ toFixed5 (lat s) = toFixed5 (lon t) @ '','' @ toFixed5 (lat t)
     \<longleftrightarrow> stopFixed5 s = stopFixed5 t"
proof -
  have "toFixed5 (lon s) @ CHR '','' # toFixed5 (lat s) = toFixed5 (lon t) @ CHR '','' # toFixed5 (lat t)
     \<longleftrightarrow> toFixed5 (lon s) = toFixed5 (lon t) \<and> toFixed5 (lat s) = toFixed5 (lat t)"
    using split_unique [of "CHR '',''" "toFixed5 (lon s)" "toFixed5 (lon t)"] toFixed5_no_sep
    by auto
  then show ?thesis by (simp add: stopFixed5_def toFixed5_eq_iff)
qed

lemma map_eq_iff_pointwise:
  assumes "\<And>a b. f a = f b \<longleftrightarrow> g a = g b"
  shows "map f xs = map f ys \<longleftrightarrow> map g xs = map g ys"
proof (induction xs arbitrary: ys)
  case Nil
  then show ?case by auto
next
  case (Cons x xs)
  then show ?case using assms by (cases ys) auto
qed

lemma makeKey_eq_iff_stopFixed5:
  fixes stops1 stops2 :: "'a latlon_scheme list"
  shows "makeKey stops1 profile = makeKey stops2 profile
     \<longleftrightarrow> map stopFixed5 stops1 = map stopFixed5 stops2"
proof -
  let ?t = "\<lambda>s. toFixed5 (lon s) @ '','' @ toFixed5 (lat s)"
  have sep: "CHR '';'' \<notin> set (?t s) \<and> ?t s \<noteq> []" for s :: "'a latlon_scheme"
    using toFixed5_no_sep by simp
  have "makeKey stops1 profile = makeKey stops2 profile
      \<longleftrightarrow> join '';'' (map ?t stops1) = join '';'' (map ?t stops2)"
    by (simp add: makeKey_def)
  also have "\<dots> \<longleftrightarrow> map ?t stops1 = map ?t stops2"
  proof
    assume "join '';'' (map ?t stops1) = join '';'' (map ?t stops2)"
    moreover have "\<And>x. x \<in> set (map ?t stops1) \<union> set (map ?t stops2)
        \<Longrightarrow> CHR '';'' \<notin> set x \<and> x \<noteq> []"
      using sep by auto
    ultimately show "map ?t stops1 = map ?t stops2" by (rule join_inj [rotated])
  qed simp
  also have "\<dots> \<longleftrightarrow> map stopFixed5 stops1 = map stopFixed5 stops2"
    by (rule map_eq_iff_pointwise) (rule stopText_eq_iff)
  finally show ?thesis .
qed

text \<open>Two coordinates less than \<open>10^-5\<close> apart on the two sides of a rounding boundary.\<close>

lemma fixedDigits_0: "fixedDigits 0 = ''0.00000''"
  by code_simp

lemma fixedDigits_1: "fixedDigits (Suc 0) = ''0.00001''"
  by code_simp

lemma toFixed5_zero: "toFixed5 0 = ''0.00000''"
  by (simp add: toFixed5_def fixedDigits_0)

lemma toFixed5_below: "toFixed5 (1 / 262144) = ''0.00000''"
  by (simp add: toFixed5_def fixedDigits_0)

lemma toFixed5_above: "toFixed5 (1 / 131072) = ''0.00001''"
  by (simp add: toFixed5_def fixedDigits_1)

text \<open>
  C4, as stated, fails: the longitudes \<open>2^-18\<close> (about 0.0000038) and \<open>2^-17\<close> (about
  0.0000076) differ by less than the rounding precision \<open>10^-5\<close>, and the keys of the two
  one-stop sequences differ.
\<close>

theorem makeKey_jitter_across_boundary:
  "\<bar>1 / 262144 - 1 / 131072\<bar> < (1 / 100000 :: real)
   \<and> makeKey [\<lparr>lat = 0, lon = 1 / 262144\<rparr>] ''driving'' = ''driving:0.00000,0.00000''
   \<and> makeKey [\<lparr>lat = 0, lon = 1 / 131072\<rparr>] ''driving'' = ''driving:0.00001,0.00000''
   \<and> makeKey [\<lparr>lat = 0, lon = 1 / 262144\<rparr>] ''driving''
       \<noteq> makeKey [\<lparr>lat = 0, lon = 1 / 131072\<rparr>] ''driving''"
  by (simp add: makeKey_def toFixed5_zero toFixed5_below toFixed5_above)

text \<open>
  C4, amended. Under one profile, two stop sequences have the same key exactly when they
  agree, stop by stop and in order, on every coordinate rounded to 5 decimal digits (its
  sign and its magnitude in units of \<open>10^-5\<close>, a half rounded upwards). So \<open>A \<rightarrow> B\<close> and
  \<open>B \<rightarrow> A\<close> have distinct keys exactly when \<open>A\<close> and \<open>B\<close> round differently, and jitter
  collides exactly when it stays within one rounding interval on one side of zero.
\<close>

theorem makeKey_eq_iff_rounded:
  fixes stops1 stops2 :: "'a latlon_scheme list" and a b :: "'a latlon_scheme"
  shows "(makeKey stops1 profile = makeKey stops2 profile
            \<longleftrightarrow> map stopFixed5 stops1 = map stopFixed5 stops2)
   \<and> (makeKey [a, b] profile = makeKey [b, a] profile \<longleftrightarrow> stopFixed5 a = stopFixed5 b)"
  using makeKey_eq_iff_stopFixed5 [of stops1 profile stops2]
    makeKey_eq_iff_stopFixed5 [of "[a, b]" profile "[b, a]"]
  by auto

section \<open>Properties of the route cache\<close>

lemma get_cases:
  "RouteCache_get env st stops profile =
     (case mem st (makeKey stops profile) of
        Some v \<Rightarrow> (Some v, st)
      | None \<Rightarrow>
          (case sessionStorage st (PREFIX @ makeKey stops profile) of
             None \<Rightarrow> (None, st)
           | Some raw \<Rightarrow>
               if raw = [] then (None, st)
               else (case JSON_parse env raw of
                       None \<Rightarrow> (None, st)
                     | Some v \<Rightarrow> (Some v, st\<lparr>mem := (mem st)(makeKey stops profile \<mapsto> v)\<rparr>))))"
  by (simp add: RouteCache_get_def Let_def)

lemma get_hit: "mem st (makeKey stops profile) = Some v \<Longrightarrow>
   RouteCache_get env st stops profile = (Some v, st)"
  by (simp add: get_cases)

lemma get_miss_state:
  "fst (RouteCache_get env st stops profile) = None \<Longrightarrow>
   snd (RouteCache_get env st stops profile) = st \<and> mem st (makeKey stops profile) = None"
  by (auto simp: get_cases split: option.splits if_splits)

lemma get_session: "sessionStorage (snd (RouteCache_get env st stops profile)) = sessionStorage st"
  by (auto simp: get_cases split: option.splits)

lemma get_mem_other:
  "k \<noteq> makeKey stops profile \<Longrightarrow> mem (snd (RouteCache_get env st stops profile)) k = mem st k"
  by (auto simp: get_cases split: option.splits)

lemma get_mem_keeps:
  "mem st k = Some e \<Longrightarrow> mem (snd (RouteCache_get env st stops profile)) k = Some e"
  by (cases "k = makeKey stops profile") (simp_all add: get_hit get_mem_other)

lemma get_absent:
  "mem st (makeKey stops profile) = None \<Longrightarrow>
   sessionStorage st (PREFIX @ makeKey stops profile) = None \<Longrightarrow>
   RouteCache_get env st stops profile = (None, st)"
  by (simp add: get_cases)

lemma set_mem:
  "mem (RouteCache_set env now st stops data profile) =
     (mem st)(makeKey stops profile \<mapsto>
        \<lparr>points = points data, distanceKm = distanceKm data, cachedAt = now\<rparr>)"
  by (simp add: RouteCache_set_def Let_def)

lemma set_session_other:
  "k \<noteq> makeKey stops profile \<Longrightarrow>
   sessionStorage (RouteCache_set env now st stops data profile) (PREFIX @ k)
     = sessionStorage st (PREFIX @ k)"
  by (simp add: RouteCache_set_def Let_def)

lemma set_then_get:
  "RouteCache_get env (RouteCache_set env now st stops data profile) stops profile =
     (Some \<lparr>points = points data, distanceKm = distanceKm data, cachedAt = now\<rparr>,
      RouteCache_set env now st stops data profile)"
  by (rule get_hit) (simp add: set_mem)

lemma prewarm_cases:
  "RouteCache_prewarm env now resp st stops profile =
     (case fst (RouteCache_get env st stops profile) of
        Some v \<Rightarrow> (None, snd (RouteCache_get env st stops profile))
      | None \<Rightarrow>
          (case resp of
             Rejected \<Rightarrow> (Some NetworkError, st)
           | NotJson \<Rightarrow> (Some SyntaxError, st)
           | Json routes \<Rightarrow>
               if routes = [] then (None, st)
               else (case geometry (routes ! 0) of
                       None \<Rightarrow> (Some TypeError, st)
                     | Some coordinates \<Rightarrow>
                         (None,
                          RouteCache_set env now st stops
                            \<lparr>points = map (\<lambda>c. (snd c, fst c)) coordinates,
                             distanceKm = distance (routes ! 0) / 1000\<rparr>
                            profile))))"
proof (cases "fst (RouteCache_get env st stops profile)")
  case None
  then have "RouteCache_get env st stops profile = (None, st)"
    using get_miss_state [of env st stops profile] by (simp add: prod_eq_iff)
  then show ?thesis
    by (simp add: RouteCache_prewarm_def None split: fetched.splits option.splits)
next
  case (Some v)
  then obtain st' where "RouteCache_get env st stops profile = (Some v, st')"
    by (cases "RouteCache_get env st stops profile") simp
  then show ?thesis
    by (simp add: RouteCache_prewarm_def)
qed

text \<open>A key that is absent stays absent until an operation stores under it.\<close>

lemma get_keeps_absent: "absentAt st k \<Longrightarrow> absentAt (snd (RouteCache_get env st stops profile)) k"
  by (cases "k = makeKey stops profile")
     (simp_all add: absentAt_def get_absent get_session get_mem_other)

lemma set_keeps_absent:
  "absentAt st k \<Longrightarrow> k \<noteq> makeKey stops profile \<Longrightarrow>
   absentAt (RouteCache_set env now st stops data profile) k"
  by (simp add: absentAt_def set_mem set_session_other)

lemma prewarm_keeps_absent:
  "absentAt st k \<Longrightarrow> k \<noteq> makeKey stops profile \<Longrightarrow>
   absentAt (snd (RouteCache_prewarm env now resp st stops profile)) k"
  using get_keeps_absent [of st k env stops profile]
  by (auto simp: prewarm_cases set_keeps_absent split: option.splits fetched.splits)

lemma applyOp_keeps_absent:
  "absentAt st k \<Longrightarrow> storesUnder op \<noteq> Some k \<Longrightarrow> absentAt (applyOp env st op) k"
  by (cases op) (auto simp: get_keeps_absent set_keeps_absent prewarm_keeps_absent)

lemma runOps_keeps_absent:
  "absentAt st k \<Longrightarrow> (\<And>op. op \<in> set ops \<Longrightarrow> storesUnder op \<noteq> Some k) \<Longrightarrow>
   absentAt (runOps env ops st) k"
  unfolding runOps_def
  by (induction ops arbitrary: st) (simp_all add: applyOp_keeps_absent)

lemma fresh_absent: "absentAt freshClient k"
  by (simp add: absentAt_def freshClient_def)

text \<open>An entry in the first tier stays until a \<open>set\<close> replaces it.\<close>

lemma set_keeps_entry:
  "mem st k = Some e \<Longrightarrow> k \<noteq> makeKey stops profile \<Longrightarrow>
   mem (RouteCache_set env now st stops data profile) k = Some e"
  by (simp add: set_mem)

lemma prewarm_keeps_entry:
  "mem st k = Some e \<Longrightarrow> mem (snd (RouteCache_prewarm env now resp st stops profile)) k = Some e"
proof (cases "fst (RouteCache_get env st stops profile)")
  case (Some v)
  then show ?thesis if "mem st k = Some e"
    using that by (simp add: prewarm_cases get_mem_keeps)
next
  case None
  assume e: "mem st k = Some e"
  then have "k \<noteq> makeKey stops profile"
    using get_miss_state [OF None] by auto
  then show ?thesis using e None
    by (auto simp: prewarm_cases set_keeps_entry split: fetched.splits option.splits)
qed

lemma applyOp_keeps_entry:
  "mem st k = Some e \<Longrightarrow> setsKey op \<noteq> Some k \<Longrightarrow> mem (applyOp env st op) k = Some e"
  by (cases op) (auto simp: get_mem_keeps set_keeps_entry prewarm_keeps_entry)

lemma runOps_keeps_entry:
  "mem st k = Some e \<Longrightarrow> (\<And>op. op \<in> set ops \<Longrightarrow> setsKey op \<noteq> Some k) \<Longrightarrow>
   mem (runOps env ops st) k = Some e"
  unfolding runOps_def
  by (induction ops arbitrary: st) (simp_all add: applyOp_keeps_entry)

lemma applyOp_keeps_present:
  assumes "mem st k = Some e"
  shows "\<exists>e'. mem (applyOp env st op) k = Some e'"
proof (cases "setsKey op = Some k")
  case False
  then have "mem (applyOp env st op) k = Some e"
    using assms by (rule applyOp_keeps_entry [rotated])
  then show ?thesis by blast
next
  case True
  then show ?thesis by (cases op) (simp_all add: set_mem)
qed

lemma runOps_keeps_present:
  "mem st k = Some e \<Longrightarrow> \<exists>e'. mem (runOps env ops st) k = Some e'"
  unfolding runOps_def
proof (induction ops arbitrary: st e)
  case Nil
  then show ?case by simp
next
  case (Cons op ops)
  obtain e' where "mem (applyOp env st op) k = Some e'"
    using applyOp_keeps_present [OF Cons.prems] by blast
  then show ?case using Cons.IH by simp
qed

text \<open>
  C3, as stated, fails: from an empty cache, when the request is rejected, the promise
  of \<open>prewarm\<close> rejects with the network error.
\<close>

theorem prewarm_rejects_on_network_error:
  "fst (RouteCache_prewarm plainBrowser 0 Rejected freshClient
          [\<lparr>lat = 13, lon = 80\<rparr>, \<lparr>lat = 11, lon = 77\<rparr>] ''driving'')
     = Some NetworkError"
  using fresh_absent
  by (simp add: prewarm_cases get_absent absentAt_def)

text \<open>
  C3, amended. On a miss \<open>prewarm\<close> rejects when its request is rejected, when the body
  is not JSON, and when the first route has no geometry; on a hit and on an empty route
  list it resolves. Its caller \<open>warmRouteCache\<close> drops the rejection: no failure ever
  surfaces from \<open>warmRouteCache\<close>.
\<close>

theorem warmRouteCache_drops_rejection:
  "fst (warmRouteCache env now resp st stops) = None
   \<and> fst (RouteCache_prewarm env now resp st' stops' profile) =
       (case fst (RouteCache_get env st' stops' profile) of
          Some v \<Rightarrow> None
        | None \<Rightarrow>
            (case resp of
               Rejected \<Rightarrow> Some NetworkError
             | NotJson \<Rightarrow> Some SyntaxError
             | Json routes \<Rightarrow>
                 if routes = [] then None
                 else (case geometry (routes ! 0) of
                         None \<Rightarrow> Some TypeError
                       | Some coordinates \<Rightarrow> None)))"
proof
  show "fst (warmRouteCache env now resp st stops) = None"
    by (simp add: warmRouteCache_def Let_def split: prod.splits option.splits)
  show "fst (RouteCache_prewarm env now resp st' stops' profile) =
       (case fst (RouteCache_get env st' stops' profile) of
          Some v \<Rightarrow> None
        | None \<Rightarrow>
            (case resp of
               Rejected \<Rightarrow> Some NetworkError
             | NotJson \<Rightarrow> Some SyntaxError
             | Json routes \<Rightarrow>
                 if routes = [] then None
                 else (case geometry (routes ! 0) of
                         None \<Rightarrow> Some TypeError
                       | Some coordinates \<Rightarrow> None)))"
    by (simp add: prewarm_cases split: option.splits fetched.splits)
qed

lemma key_zero: "makeKey [\<lparr>lat = 0, lon = 0\<rparr>] ''driving'' = ''driving:0.00000,0.00000''"
  by (simp add: makeKey_def toFixed5_zero)

lemma key_below: "makeKey [\<lparr>lat = 0, lon = 1 / 262144\<rparr>] ''driving'' = ''driving:0.00000,0.00000''"
  by (simp add: makeKey_def toFixed5_zero toFixed5_below)

lemma key_above: "makeKey [\<lparr>lat = 0, lon = 1 / 131072\<rparr>] ''driving'' = ''driving:0.00001,0.00000''"
  by (simp add: makeKey_def toFixed5_zero toFixed5_above)

text \<open>
  C6, as stated, fails: after one \<open>set\<close> for the stop \<open>(0, 0)\<close>, a \<open>get\<close> for the stop
  \<open>(0, 2^-18)\<close>, which was never set, returns the route stored for \<open>(0, 0)\<close>: both stops
  have the key \<open>driving:0.00000,0.00000\<close>.
\<close>

theorem get_returns_route_of_colliding_stops:
  "[\<lparr>lat = 0, lon = 1 / 262144\<rparr>] \<noteq> [\<lparr>lat = 0, lon = 0 :: real\<rparr>]
   \<and> fst (RouteCache_get plainBrowser
            (runOps plainBrowser
               [Set 7 [\<lparr>lat = 0, lon = 0\<rparr>] \<lparr>points = [(0, 0)], distanceKm = 1\<rparr> ''driving'']
               freshClient)
            [\<lparr>lat = 0, lon = 1 / 262144\<rparr>] ''driving'')
       = Some \<lparr>points = [(0, 0)], distanceKm = 1, cachedAt = 7\<rparr>"
proof -
  have "mem (runOps plainBrowser
               [Set 7 [\<lparr>lat = 0, lon = 0\<rparr>] \<lparr>points = [(0, 0)], distanceKm = 1\<rparr> ''driving'']
               freshClient) (makeKey [\<lparr>lat = 0, lon = 1 / 262144\<rparr>] ''driving'')
        = Some \<lparr>points = [(0, 0)], distanceKm = 1, cachedAt = 7\<rparr>"
    by (simp add: runOps_def set_mem key_zero key_below)
  then show ?thesis by (simp add: get_hit)
qed

text \<open>
  C6, amended. \<open>set\<close> followed by \<open>get\<close> for the same stops and profile returns the
  stored points and distance, with the time of the \<open>set\<close>; and in a session that began
  with both tiers empty, \<open>get\<close> returns absent for stops and profile under whose key no
  operation has stored.
\<close>

theorem set_get_round_trip:
  "fst (RouteCache_get env (RouteCache_set env now st stops data profile) stops profile)
     = Some \<lparr>points = points data, distanceKm = distanceKm data, cachedAt = now\<rparr>
   \<and> ((\<forall>op \<in> set ops. storesUnder op \<noteq> Some (makeKey stops profile)) \<longrightarrow>
        fst (RouteCache_get env (runOps env ops freshClient) stops profile) = None)"
proof (intro conjI impI)
  show "fst (RouteCache_get env (RouteCache_set env now st stops data profile) stops profile)
     = Some \<lparr>points = points data, distanceKm = distanceKm data, cachedAt = now\<rparr>"
    by (simp add: set_then_get)
next
  assume "\<forall>op \<in> set ops. storesUnder op \<noteq> Some (makeKey stops profile)"
  then have "absentAt (runOps env ops freshClient) (makeKey stops profile)"
    by (intro runOps_keeps_absent fresh_absent) simp
  then show "fst (RouteCache_get env (runOps env ops freshClient) stops profile) = None"
    by (simp add: absentAt_def get_absent)
qed

theorem set_get_round_trip_witness:
  "storesUnder (Get [\<lparr>lat = 0, lon = 1 / 262144\<rparr>] ''driving'')
     \<noteq> Some (makeKey [\<lparr>lat = 0, lon = 1 / 262144\<rparr>] ''driving'')
   \<and> storesUnder (Set 3 [\<lparr>lat = 0, lon = 1 / 131072\<rparr>] \<lparr>points = [(0, 0)], distanceKm = 1\<rparr> ''driving'')
     \<noteq> Some (makeKey [\<lparr>lat = 0, lon = 1 / 262144\<rparr>] ''driving'')
   \<and> fst (RouteCache_get plainBrowser
            (runOps plainBrowser
               [Get [\<lparr>lat = 0, lon = 1 / 262144\<rparr>] ''driving'',
                Set 3 [\<lparr>lat = 0, lon = 1 / 131072\<rparr>] \<lparr>points = [(0, 0)], distanceKm = 1\<rparr> ''driving'']
               freshClient)
            [\<lparr>lat = 0, lon = 1 / 262144\<rparr>] ''driving'') = None
   \<and> fst (RouteCache_get plainBrowser
            (RouteCache_set plainBrowser 7 freshClient [\<lparr>lat = 0, lon = 1 / 262144\<rparr>]
               \<lparr>points = [(0, 0)], distanceKm = 1\<rparr> ''driving'')
            [\<lparr>lat = 0, lon = 1 / 262144\<rparr>] ''driving'')
       = Some \<lparr>points = [(0, 0)], distanceKm = 1, cachedAt = 7\<rparr>"
  using set_get_round_trip [of plainBrowser 7 freshClient "[\<lparr>lat = 0, lon = 1 / 262144\<rparr>]"
      "\<lparr>points = [(0, 0)], distanceKm = 1\<rparr>" "''driving''"
      "[Get [\<lparr>lat = 0, lon = 1 / 262144\<rparr>] ''driving'',
        Set 3 [\<lparr>lat = 0, lon = 1 / 131072\<rparr>] \<lparr>points = [(0, 0)], distanceKm = 1\<rparr> ''driving'']"]
  by (simp add: key_below key_above)

text \<open>
  C10. No operation of the cache takes the time as a condition: \<open>get\<close> has no clock, and
  the \<open>now\<close> of \<open>set\<close> and \<open>prewarm\<close> is only stored. After a \<open>set\<close>, whatever operations
  follow at whatever times, \<open>get\<close> for the same stops and profile returns an entry, and
  it returns the very entry of that \<open>set\<close> unless a later \<open>set\<close> has replaced it. A text
  found in the second tier that parses is returned and copied into the first tier
  whatever its \<open>cachedAt\<close>.
\<close>

theorem cached_route_never_expires:
  "(\<exists>e. fst (RouteCache_get env
              (runOps env ops (RouteCache_set env now st stops data profile)) stops profile)
          = Some e)
   \<and> ((\<forall>op \<in> set ops. setsKey op \<noteq> Some (makeKey stops profile)) \<longrightarrow>
        fst (RouteCache_get env
               (runOps env ops (RouteCache_set env now st stops data profile)) stops profile)
          = Some \<lparr>points = points data, distanceKm = distanceKm data, cachedAt = now\<rparr>)
   \<and> (mem st (makeKey stops profile) = None
        \<and> sessionStorage st (PREFIX @ makeKey stops profile) = Some raw
        \<and> raw \<noteq> [] \<and> JSON_parse env raw = Some v \<longrightarrow>
        RouteCache_get env st stops profile
          = (Some v, st\<lparr>mem := (mem st)(makeKey stops profile \<mapsto> v)\<rparr>))"
proof (intro conjI impI)
  let ?st = "RouteCache_set env now st stops data profile"
  let ?e = "\<lparr>points = points data, distanceKm = distanceKm data, cachedAt = now\<rparr>"
  have m: "mem ?st (makeKey stops profile) = Some ?e" by (simp add: set_mem)
  obtain e' where "mem (runOps env ops ?st) (makeKey stops profile) = Some e'"
    using runOps_keeps_present [OF m] by blast
  then show "\<exists>e. fst (RouteCache_get env (runOps env ops ?st) stops profile) = Some e"
    by (simp add: get_hit)
  show "fst (RouteCache_get env (runOps env ops ?st) stops profile) = Some ?e"
    if "\<forall>op \<in> set ops. setsKey op \<noteq> Some (makeKey stops profile)"
  proof -
    have "mem (runOps env ops ?st) (makeKey stops profile) = Some ?e"
      using m that by (intro runOps_keeps_entry) simp_all
    then show ?thesis by (simp add: get_hit)
  qed
  show "RouteCache_get env st stops profile
          = (Some v, st\<lparr>mem := (mem st)(makeKey stops profile \<mapsto> v)\<rparr>)"
    if "mem st (makeKey stops profile) = None
        \<and> sessionStorage st (PREFIX @ makeKey stops profile) = Some raw
        \<and> raw \<noteq> [] \<and> JSON_parse env raw = Some v"
    using that by (simp add: get_cases)
qed

theorem cached_route_never_expires_witness:
  "setsKey (Prewarm 1000000000000 Rejected [\<lparr>lat = 0, lon = 0\<rparr>] ''driving'')
     \<noteq> Some (makeKey [\<lparr>lat = 0, lon = 0\<rparr>] ''driving'')
   \<and> setsKey (Set 2000000000000 [\<lparr>lat = 0, lon = 1 / 131072\<rparr>]
                \<lparr>points = [], distanceKm = 2\<rparr> ''driving'')
     \<noteq> Some (makeKey [\<lparr>lat = 0, lon = 0\<rparr>] ''driving'')
   \<and> fst (RouteCache_get staleBrowser
            (runOps staleBrowser
               [Prewarm 1000000000000 Rejected [\<lparr>lat = 0, lon = 0\<rparr>] ''driving'',
                Set 2000000000000 [\<lparr>lat = 0, lon = 1 / 131072\<rparr>]
                  \<lparr>points = [], distanceKm = 2\<rparr> ''driving'']
               (RouteCache_set staleBrowser 7 freshClient [\<lparr>lat = 0, lon = 0\<rparr>]
                  \<lparr>points = [(0, 0)], distanceKm = 1\<rparr> ''driving''))
            [\<lparr>lat = 0, lon = 0\<rparr>] ''driving'')
       = Some \<lparr>points = [(0, 0)], distanceKm = 1, cachedAt = 7\<rparr>
   \<and> mem \<lparr>mem = Map.empty, sessionStorage = [''btrc_driving:0.00000,0.00000'' \<mapsto> ''old'']\<rparr>
         (makeKey [\<lparr>lat = 0, lon = 0\<rparr>] ''driving'') = None
   \<and> sessionStorage
         \<lparr>mem = Map.empty, sessionStorage = [''btrc_driving:0.00000,0.00000'' \<mapsto> ''old'']\<rparr>
         (PREFIX @ makeKey [\<lparr>lat = 0, lon = 0\<rparr>] ''driving'') = Some ''old''
   \<and> ''old'' \<noteq> []
   \<and> JSON_parse staleBrowser ''old'' = Some \<lparr>points = [], distanceKm = 0, cachedAt = 0\<rparr>
   \<and> RouteCache_get staleBrowser
         \<lparr>mem = Map.empty, sessionStorage = [''btrc_driving:0.00000,0.00000'' \<mapsto> ''old'']\<rparr>
         [\<lparr>lat = 0, lon = 0\<rparr>] ''driving''
       = (Some \<lparr>points = [], distanceKm = 0, cachedAt = 0\<rparr>,
          \<lparr>mem = [''driving:0.00000,0.00000'' \<mapsto> \<lparr>points = [], distanceKm = 0, cachedAt = 0\<rparr>],
           sessionStorage = [''btrc_driving:0.00000,0.00000'' \<mapsto> ''old'']\<rparr>)"
proof -
  let ?ops = "[Prewarm 1000000000000 Rejected [\<lparr>lat = 0, lon = 0\<rparr>] ''driving'',
               Set 2000000000000 [\<lparr>lat = 0, lon = 1 / 131072\<rparr>]
                 \<lparr>points = [], distanceKm = 2\<rparr> ''driving'']"
  let ?st = "\<lparr>mem = Map.empty, sessionStorage = [''btrc_driving:0.00000,0.00000'' \<mapsto> ''old'']\<rparr>"
  let ?v = "\<lparr>points = [], distanceKm = 0, cachedAt = 0\<rparr>"
  note later = cached_route_never_expires [of staleBrowser ?ops 7 freshClient
      "[\<lparr>lat = 0, lon = 0\<rparr>]" "\<lparr>points = [(0, 0)], distanceKm = 1\<rparr>" "''driving''" "''old''" ?v,
      THEN conjunct2, THEN conjunct1]
  note promote = cached_route_never_expires [of staleBrowser "[]" 0 ?st
      "[\<lparr>lat = 0, lon = 0\<rparr>]" "\<lparr>points = [], distanceKm = 0\<rparr>" "''driving''" "''old''" ?v,
      THEN conjunct2, THEN conjunct2]
  have a: "setsKey (Prewarm 1000000000000 Rejected [\<lparr>lat = 0, lon = 0\<rparr>] ''driving'')
     \<noteq> Some (makeKey [\<lparr>lat = 0, lon = 0\<rparr>] ''driving'')"
    by simp
  have b: "setsKey (Set 2000000000000 [\<lparr>lat = 0, lon = 1 / 131072\<rparr>]
                \<lparr>points = [], distanceKm = 2\<rparr> ''driving'')
     \<noteq> Some (makeKey [\<lparr>lat = 0, lon = 0\<rparr>] ''driving'')"
    by (simp add: key_zero key_above)
  have c: "fst (RouteCache_get staleBrowser
            (runOps staleBrowser ?ops
               (RouteCache_set staleBrowser 7 freshClient [\<lparr>lat = 0, lon = 0\<rparr>]
                  \<lparr>points = [(0, 0)], distanceKm = 1\<rparr> ''driving''))
            [\<lparr>lat = 0, lon = 0\<rparr>] ''driving'')
       = Some \<lparr>points = [(0, 0)], distanceKm = 1, cachedAt = 7\<rparr>"
    using later a b by simp
  have p: "JSON_parse staleBrowser ''old'' = Some ?v"
    by (simp add: staleBrowser_def)
  have m: "mem ?st (makeKey [\<lparr>lat = 0, lon = 0\<rparr>] ''driving'') = None"
    by simp
  have s: "sessionStorage ?st (PREFIX @ makeKey [\<lparr>lat = 0, lon = 0\<rparr>] ''driving'') = Some ''old''"
    by (simp add: key_zero PREFIX_def)
  have d: "RouteCache_get staleBrowser ?st [\<lparr>lat = 0, lon = 0\<rparr>] ''driving''
       = (Some ?v, \<lparr>mem = [''driving:0.00000,0.00000'' \<mapsto> ?v],
                   sessionStorage = [''btrc_driving:0.00000,0.00000'' \<mapsto> ''old'']\<rparr>)"
    using promote m s p by (simp add: key_zero)
  show ?thesis using a b c p m s d by blast
qed

section \<open>Properties of the geocoder\<close>

subsection \<open>The session cache of \<open>geocodeStop\<close>\<close>

lemma tryQueries_caches:
  "cache (snd (tryQueries nominatim anchor cacheKey st qs)) cacheKey
     = Some (fst (tryQueries nominatim anchor cacheKey st qs))"
  by (induction qs arbitrary: st) (simp_all add: Let_def)

lemma tryQueries_keeps:
  "k \<noteq> cacheKey \<Longrightarrow>
   cache (snd (tryQueries nominatim anchor cacheKey st qs)) k = cache st k"
  by (induction qs arbitrary: st) (simp_all add: Let_def)

lemma geocodeStop_caches:
  "cache (snd (geocodeStop nominatim st name anchor)) (toLowerCase (trim name))
     = Some (fst (geocodeStop nominatim st name anchor))"
  by (simp add: geocodeStop_def Let_def tryQueries_caches split: option.splits)

lemma geocodeStop_hit:
  "cache st (toLowerCase (trim name)) = Some v \<Longrightarrow> geocodeStop nominatim st name anchor = (v, st)"
  by (simp add: geocodeStop_def)

lemma geocodeStop_keeps:
  "cache st k = Some v \<Longrightarrow> cache (snd (geocodeStop nominatim st name anchor)) k = Some v"
proof (cases "k = toLowerCase (trim name)")
  case True
  then show ?thesis if "cache st k = Some v" using that by (simp add: geocodeStop_hit)
next
  case False
  then show ?thesis if "cache st k = Some v"
    using that by (simp add: geocodeStop_def Let_def tryQueries_keeps split: option.splits)
qed

lemma lower_trim_padded: "toLowerCase (trim '' A '') = ''a''"
  by code_simp

lemma lower_trim_A: "toLowerCase (trim ''A'') = ''a''"
  by code_simp

lemma lower_trim_X: "toLowerCase (trim ''X'') = ''x''"
  by code_simp

text \<open>
  C5. A second call of \<open>geocodeStop\<close> for a name with the same trimmed, lower-cased form
  returns the value of the first call and leaves the state as it is, the list of
  requests included, whatever the provider would answer by then and whatever the anchor;
  the first call leaves its result, a resolved place or nothing, in the cache under the
  normalized name; and no later call for any name changes an entry of the cache.
\<close>

theorem geocodeStop_resolves_once:
  "(toLowerCase (trim name') = toLowerCase (trim name) \<longrightarrow>
      geocodeStop nominatim' (snd (geocodeStop nominatim st name anchor)) name' anchor'
        = (fst (geocodeStop nominatim st name anchor), snd (geocodeStop nominatim st name anchor)))
   \<and> cache (snd (geocodeStop nominatim st name anchor)) (toLowerCase (trim name))
        = Some (fst (geocodeStop nominatim st name anchor))
   \<and> (cache st k = Some v \<longrightarrow>
        cache (snd (geocodeStop nominatim st name anchor)) k = Some v)"
  using geocodeStop_caches [of nominatim st name anchor]
  by (auto simp: geocodeStop_hit geocodeStop_keeps)

lemma geocode_X_fresh:
  "geocodeStop sampleNominatim freshGeo ''X'' None =
     (None, \<lparr>cache = [''x'' \<mapsto> None],
             requests = [''X bus stand Tamil Nadu India'', ''X bus stand India'', ''X India'']\<rparr>)"
  by (simp add: geocodeStop_def lower_trim_X freshGeo_def sampleNominatim_def equatorReply_def Let_def)


theorem geocodeStop_resolves_once_witness:
  "toLowerCase (trim '' X '') = toLowerCase (trim ''X'')
   \<and> geocodeStop sampleNominatim freshGeo ''X'' (None :: latlon option) =
       (None, \<lparr>cache = [''x'' \<mapsto> None],
               requests = [''X bus stand Tamil Nadu India'', ''X bus stand India'', ''X India'']\<rparr>)
   \<and> geocodeStop readyNominatim
         \<lparr>cache = [''x'' \<mapsto> None],
          requests = [''X bus stand Tamil Nadu India'', ''X bus stand India'', ''X India'']\<rparr>
         '' X '' (Some placeA) =
       (None, \<lparr>cache = [''x'' \<mapsto> None],
               requests = [''X bus stand Tamil Nadu India'', ''X bus stand India'', ''X India'']\<rparr>)
   \<and> cache \<lparr>cache = [''x'' \<mapsto> None],
              requests = [''X bus stand Tamil Nadu India'', ''X bus stand India'', ''X India'']\<rparr>
         ''x'' = Some None
   \<and> cache (snd (geocodeStop readyNominatim
                     \<lparr>cache = [''x'' \<mapsto> None],
                      requests = [''X bus stand Tamil Nadu India'', ''X bus stand India'',
                                  ''X India'']\<rparr>
                     ''A'' (None :: latlon option)))
         ''x'' = Some None"
proof -
  let ?st1 = "\<lparr>cache = [''x'' \<mapsto> None],
               requests = [''X bus stand Tamil Nadu India'', ''X bus stand India'', ''X India'']\<rparr>"
  have n: "toLowerCase (trim '' X '') = toLowerCase (trim ''X'')"
    by code_simp
  have first: "geocodeStop sampleNominatim freshGeo ''X'' (None :: latlon option) = (None, ?st1)"
    by (rule geocode_X_fresh)
  have second: "geocodeStop readyNominatim ?st1 '' X '' (Some placeA) = (None, ?st1)"
    using geocodeStop_resolves_once [where name' = "'' X ''" and name = "''X''"
        and nominatim' = readyNominatim and nominatim = sampleNominatim and st = freshGeo
        and anchor = "None :: latlon option" and anchor' = "Some placeA", THEN conjunct1] n
    by (simp add: first)
  have c: "cache ?st1 ''x'' = Some None" by simp
  have third: "cache (snd (geocodeStop readyNominatim ?st1 ''A'' (None :: latlon option))) ''x''
      = Some None"
    using geocodeStop_resolves_once [where nominatim = readyNominatim and st = ?st1
        and name = "''A''" and anchor = "None :: latlon option" and k = "''x''" and v = None,
        THEN conjunct2, THEN conjunct2] c
    by blast
  show ?thesis using n first second c third by blast
qed

subsection \<open>The anchor of \<open>geocodeStopSequence\<close>\<close>

lemma sequenceLoop_snoc:
  "sequenceLoop nominatim st (names @ [name]) =
     sequenceStep nominatim (sequenceLoop nominatim st names) name"
  by (simp add: sequenceLoop_def)

lemma firstResolved_single: "firstResolved [r] = r"
  by (cases r) simp_all

lemma firstResolved_snoc:
  "firstResolved (rs @ [r]) = (case firstResolved rs of Some x \<Rightarrow> Some x | None \<Rightarrow> r)"
  by (induction rs rule: firstResolved.induct) (simp_all add: firstResolved_single)

lemma sequenceLoop_anchor:
  "fst (snd (sequenceLoop nominatim st names))
     = firstResolved (fst (sequenceLoop nominatim st names))"
proof (induction names rule: rev_induct)
  case Nil
  then show ?case by (simp add: sequenceLoop_def)
next
  case (snoc name names)
  obtain results anchor st' where l: "sequenceLoop nominatim st names = (results, anchor, st')"
    by (cases "sequenceLoop nominatim st names") auto
  have "anchor = firstResolved results" using snoc l by simp
  then have l': "sequenceLoop nominatim st names = (results, firstResolved results, st')"
    using l by simp
  obtain r st'' where g: "geocodeStop nominatim st' name (firstResolved results) = (r, st'')"
    by (cases "geocodeStop nominatim st' name (firstResolved results)") auto
  show ?case
    by (auto simp: sequenceLoop_snoc l' sequenceStep_def g firstResolved_snoc split: option.splits)
qed

lemma sequenceStep_results:
  "fst (sequenceStep nominatim v name)
     = fst v @ [fst (geocodeStop nominatim (snd (snd v)) name (fst (snd v)))]"
  by (simp add: sequenceStep_def split: prod.splits)

lemma sequenceLoop_length: "length (fst (sequenceLoop nominatim st names)) = length names"
  by (induction names rule: rev_induct)
     (simp_all add: sequenceLoop_snoc sequenceStep_results, simp add: sequenceLoop_def)

lemma sequenceLoop_append_results:
  "take (length xs) (fst (sequenceLoop nominatim st (xs @ ys)))
     = fst (sequenceLoop nominatim st xs)"
proof (induction ys rule: rev_induct)
  case Nil
  then show ?case by (simp add: sequenceLoop_length)
next
  case (snoc y ys)
  have "sequenceLoop nominatim st (xs @ ys @ [y])
      = sequenceStep nominatim (sequenceLoop nominatim st (xs @ ys)) y"
    using sequenceLoop_snoc [of nominatim st "xs @ ys" y] by simp
  then show ?case
    using snoc by (simp add: sequenceStep_results sequenceLoop_length)
qed

lemma sequenceLoop_take_results:
  "fst (sequenceLoop nominatim st (take i names))
     = take i (fst (sequenceLoop nominatim st names))"
proof (cases "i \<le> length names")
  case True
  then have "take (length (take i names)) (fst (sequenceLoop nominatim st (take i names @ drop i names)))
      = fst (sequenceLoop nominatim st (take i names))"
    by (intro sequenceLoop_append_results)
  then show ?thesis using True by simp
next
  case False
  then show ?thesis by (simp add: sequenceLoop_length)
qed

lemma geocodeStopSequence_results:
  "fst (geocodeStopSequence nominatim st names) = fst (sequenceLoop nominatim st names)"
  by (simp add: geocodeStopSequence_def split: prod.splits)

lemma client_anchor:
  "fst (snd (sequenceLoop nominatim st (take i names)))
     = firstResolved (take i (fst (geocodeStopSequence nominatim st names)))"
  by (simp add: sequenceLoop_anchor sequenceLoop_take_results geocodeStopSequence_results)

lemma sequenceLoop_next:
  "i < length names \<Longrightarrow>
   sequenceLoop nominatim st (take (Suc i) names)
     = sequenceStep nominatim (sequenceLoop nominatim st (take i names)) (names ! i)"
  by (simp add: take_Suc_conv_app_nth sequenceLoop_snoc)


subsection \<open>The anchor of the edge function's loop\<close>


lemma geocodeAll_anchor:
  "anchor = lastPlace resolvedStops \<Longrightarrow>
   fst (geocodeAll env resolvedStops anchor calls names) = Inr (rs, an) \<Longrightarrow>
   an = lastPlace rs"
proof (induction names arbitrary: resolvedStops anchor calls)
  case Nil
  then show ?case by auto
next
  case (Cons stop rest)
  let ?qs = "[normalizeName env (trim stop) @ '' bus stand Tamil Nadu India'',
              normalizeName env (trim stop) @ '' bus stand India'',
              normalizeName env (trim stop) @ '' India'',
              trim stop @ '' India'']"
  obtain res calls' where q: "edgeQueries env anchor calls ?qs = (res, calls')"
    by (cases "edgeQueries env anchor calls ?qs") auto
  show ?case
  proof (cases res)
    case (Inl e)
    then show ?thesis using Cons.prems(2) q by (simp add: Let_def)
  next
    case (Inr found)
    show ?thesis
    proof (cases found)
      case None
      then have "fst (geocodeAll env resolvedStops anchor calls' rest) = Inr (rs, an)"
        using Cons.prems(2) q Inr by (simp add: Let_def)
      then show ?thesis using Cons.IH [OF Cons.prems(1)] by blast
    next
      case (Some best)
      let ?new = "resolvedStops @
                  [\<lparr>lat = lat best, lon = lon best, corrected = correctedOf best,
                    resolved_name = trim stop\<rparr>]"
      have "fst (geocodeAll env ?new (Some (lat best, lon best)) calls' rest) = Inr (rs, an)"
        using Cons.prems(2) q Inr Some by (simp add: Let_def)
      moreover have "Some (lat best, lon best) = lastPlace ?new"
        by (simp add: lastPlace_def)
      ultimately show ?thesis using Cons.IH by blast
    qed
  qed
qed

text \<open>Distances along the equator.\<close>

lemma equator_arc:
  assumes "\<bar>b - a\<bar> < 180"
  shows "(let x = (sin ((b - a) * pi / 180 / 2)) ^ 2
          in 6371 * 2 * atan2 (sqrt x) (sqrt (1 - x))) = 6371 * \<bar>b - a\<bar> * pi / 180"
proof -
  define h where "h = \<bar>b - a\<bar> * pi / 180 / 2"
  have h0: "0 \<le> h" by (simp add: h_def)
  have "\<bar>b - a\<bar> * pi < 180 * pi"
    using assms by (intro mult_strict_right_mono) simp_all
  then have h1: "h < pi / 2" by (simp add: h_def)
  have "(b - a) * pi / 180 / 2 = h \<or> (b - a) * pi / 180 / 2 = - h"
    by (auto simp: h_def abs_if field_simps)
  then have "(sin ((b - a) * pi / 180 / 2)) ^ 2 = sin h * sin h"
    by (auto simp: power2_eq_square)
  then have "(let x = (sin ((b - a) * pi / 180 / 2)) ^ 2
          in 6371 * 2 * atan2 (sqrt x) (sqrt (1 - x)))
      = 6371 * 2 * atan2 (sqrt (sin h * sin h)) (sqrt (1 - sin h * sin h))"
    by (simp add: Let_def)
  also have "\<dots> = 6371 * 2 * h"
    by (simp only: atan2_sin_cos [OF h0 h1])
  also have "\<dots> = 6371 * \<bar>b - a\<bar> * pi / 180"
    by (simp add: h_def)
  finally show ?thesis .
qed

lemma haversine_equator:
  "\<bar>b - a\<bar> < 180 \<Longrightarrow> haversine 0 a 0 b = 6371 * \<bar>b - a\<bar> * pi / 180"
  using equator_arc [of b a] by (simp add: haversine_def Let_def)

lemma edge_haversine_equator:
  "\<bar>b - a\<bar> < 180 \<Longrightarrow> edge_haversine 0 a 0 b = 6371 * \<bar>b - a\<bar> * pi / 180"
  using equator_arc [of b a] by (simp add: edge_haversine_def Let_def)

lemma client_picks_west: "pickBest (Some \<lparr>lat = 0, lon = 0, corrected = ''A''\<rparr>) [nearA, nearB] = nearA"
proof -
  have "haversine 0 0 0 (1 / 10) \<le> haversine 0 0 0 (9 / 10)"
    by (simp add: haversine_equator)
  then show ?thesis by (simp add: pickBest_def nearA_def nearB_def)
qed

lemma edge_picks_east: "edgeBest (Some (0, 1)) [nearA, nearB] = nearB"
proof -
  have far: "edge_haversine 0 1 0 (1 / 10) = 6371 * (9 / 10) * pi / 180"
    by (simp add: edge_haversine_equator)
  have near: "edge_haversine 0 1 0 (9 / 10) = 6371 * (1 / 10) * pi / 180"
    by (simp add: edge_haversine_equator)
  have "\<not> (6371 * (9 / 10) * pi / 180 \<le> 6371 * (1 / 10) * pi / 180)"
    using pi_gt_zero by simp
  then have "\<not> edge_haversine 0 1 0 (1 / 10) \<le> edge_haversine 0 1 0 (9 / 10)"
    unfolding far near .
  then show ?thesis by (simp add: edgeBest_def nearA_def nearB_def Let_def)
qed


subsection \<open>The two loops on the same provider\<close>

lemma trim_ABC: "trim ''A'' = ''A''" "trim ''B'' = ''B''" "trim ''C'' = ''C''"
  by code_simp+

lemma lower_ABC: "toLowerCase ''A'' = ''a''" "toLowerCase ''B'' = ''b''" "toLowerCase ''C'' = ''c''"
  by code_simp+

lemma edgeBest_single: "edgeBest anchor [c] = c"
  by (simp add: edgeBest_def split: option.splits)

lemma pickBest_single: "pickBest anchor [c] = c"
  by (simp add: pickBest_def split: option.splits)

lemma sampleEdge_fields:
  "geocoder sampleEdge q = Inr (equatorReply q)" "normalizeName sampleEdge n = n"
  "kvAvailable sampleEdge" "lookupTime sampleEdge = 1000" "storeTime sampleEdge = 2000"
  "router sampleEdge resolvedStops = Inr [sampleRoute]"
  by (simp_all add: sampleEdge_def)

lemma reply_A: "equatorReply ''A bus stand Tamil Nadu India'' = [placeA]"
  by (simp add: equatorReply_def)

lemma reply_B: "equatorReply ''B bus stand Tamil Nadu India'' = [placeB]"
  by (simp add: equatorReply_def)

lemma reply_C: "equatorReply ''C bus stand Tamil Nadu India'' = [nearA, nearB]"
  by (simp add: equatorReply_def)

lemma edge_ABC:
  "fst (geocodeAll sampleEdge [] None [] [''A'', ''B'', ''C'']) =
     Inr ([\<lparr>lat = 0, lon = 0, corrected = ''A'', resolved_name = ''A''\<rparr>,
           \<lparr>lat = 0, lon = 1, corrected = ''B'', resolved_name = ''B''\<rparr>,
           \<lparr>lat = 0, lon = 9 / 10, corrected = ''C east'', resolved_name = ''C''\<rparr>],
          Some (0, 9 / 10))"
proof -
  have b: "lat placeB = 0" "lon placeB = 1" "lat placeA = 0" "lon placeA = 0"
    "correctedOf placeA = ''A''" "correctedOf placeB = ''B''" "correctedOf nearB = ''C east''"
    "lat nearB = 0" "lon nearB = 9 / 10"
    by (simp_all add: placeA_def placeB_def nearB_def correctedOf_def)
  show ?thesis
    by (simp add: trim_ABC sampleEdge_fields reply_A reply_B reply_C edgeBest_single
        edge_picks_east b Let_def)
qed

lemma client_ABC:
  "fst (geocodeStopSequence sampleNominatim freshGeo [''A'', ''B'', ''C'']) =
     [Some \<lparr>lat = 0, lon = 0, corrected = ''A''\<rparr>,
      Some \<lparr>lat = 0, lon = 1, corrected = ''B''\<rparr>,
      Some \<lparr>lat = 0, lon = 1 / 10, corrected = ''C west''\<rparr>]"
proof -
  have b: "lat placeB = 0" "lon placeB = 1" "lat placeA = 0" "lon placeA = 0"
    "correctedOf placeA = ''A''" "correctedOf placeB = ''B''" "correctedOf nearA = ''C west''"
    "lat nearA = 0" "lon nearA = 1 / 10"
    by (simp_all add: placeA_def placeB_def nearA_def correctedOf_def)
  have n: "sampleNominatim k q = equatorReply q" for k q
    by (simp add: sampleNominatim_def)
  show ?thesis
    by (simp add: geocodeStopSequence_def sequenceLoop_def sequenceStep_def geocodeStop_def
        freshGeo_def trim_ABC lower_ABC n reply_A reply_B reply_C pickBest_single
        client_picks_west b Let_def)
qed

lemma edge_AB:
  "fst (geocodeAll sampleEdge [] None [] [''A'', ''B'']) =
     Inr ([\<lparr>lat = 0, lon = 0, corrected = ''A'', resolved_name = ''A''\<rparr>,
           \<lparr>lat = 0, lon = 1, corrected = ''B'', resolved_name = ''B''\<rparr>],
          Some (0, 1))"
proof -
  have b: "lat placeB = 0" "lon placeB = 1" "lat placeA = 0" "lon placeA = 0"
    "correctedOf placeA = ''A''" "correctedOf placeB = ''B''"
    by (simp_all add: placeA_def placeB_def correctedOf_def)
  show ?thesis
    by (simp add: trim_ABC sampleEdge_fields reply_A reply_B edgeBest_single b Let_def)
qed

lemma geocodeAll_append:
  "geocodeAll env resolvedStops anchor calls (xs @ ys) =
     (case geocodeAll env resolvedStops anchor calls xs of
        (Inl e, calls') \<Rightarrow> (Inl e, calls')
      | (Inr (rs, an), calls') \<Rightarrow> geocodeAll env rs an calls' ys)"
proof (induction xs arbitrary: resolvedStops anchor calls)
  case Nil
  then show ?case by simp
next
  case (Cons stop rest)
  let ?qs = "[normalizeName env (trim stop) @ '' bus stand Tamil Nadu India'',
              normalizeName env (trim stop) @ '' bus stand India'',
              normalizeName env (trim stop) @ '' India'',
              trim stop @ '' India'']"
  obtain res calls' where q: "edgeQueries env anchor calls ?qs = (res, calls')"
    by (cases "edgeQueries env anchor calls ?qs") auto
  show ?case
  proof (cases res)
    case (Inl e)
    then show ?thesis using q by (simp add: Let_def)
  next
    case (Inr found)
    then show ?thesis using q Cons.IH by (cases found) (simp_all add: Let_def)
  qed
qed

lemma client_result_at:
  assumes "i < length names"
  shows "fst (geocodeStopSequence nominatim st names) ! i =
     fst (geocodeStop nominatim (snd (snd (sequenceLoop nominatim st (take i names))))
            (names ! i)
            (firstResolved (take i (fst (geocodeStopSequence nominatim st names)))))"
proof -
  let ?v = "sequenceLoop nominatim st (take i names)"
  have len: "length (fst ?v) = i" using assms by (simp add: sequenceLoop_length)
  have "fst (geocodeStopSequence nominatim st names) ! i
      = take (Suc i) (fst (sequenceLoop nominatim st names)) ! i"
    by (simp add: geocodeStopSequence_results)
  also have "\<dots> = fst (sequenceLoop nominatim st (take (Suc i) names)) ! i"
    by (simp only: sequenceLoop_take_results)
  also have "\<dots> = fst (sequenceStep nominatim ?v (names ! i)) ! i"
    using assms by (simp only: sequenceLoop_next)
  also have "\<dots> = fst (geocodeStop nominatim (snd (snd ?v)) (names ! i) (fst (snd ?v)))"
    using len by (simp add: sequenceStep_results nth_append)
  finally show ?thesis by (simp only: client_anchor)
qed

text \<open>
  C2. The edge function's loop does not hold the anchor as the client's loop does, which
  it reimplements. On one provider, for the stops \<open>A\<close>, \<open>B\<close>, \<open>C\<close>: after \<open>A\<close> and \<open>B\<close> the
  edge loop's anchor is the place of \<open>B\<close>, \<open>(0, 1)\<close>, not that of the first resolved stop
  \<open>A\<close>, \<open>(0, 0)\<close>; so of the two candidates for \<open>C\<close> the edge loop takes the one near
  \<open>B\<close>, where the client's loop, whose anchor stays at \<open>A\<close>, takes the one near \<open>A\<close>.
\<close>

theorem edge_anchor_follows_last_stop:
  "fst (geocodeAll sampleEdge [] None [] [''A'', ''B'']) =
     Inr ([\<lparr>lat = 0, lon = 0, corrected = ''A'', resolved_name = ''A''\<rparr>,
           \<lparr>lat = 0, lon = 1, corrected = ''B'', resolved_name = ''B''\<rparr>],
          Some (0, 1))
   \<and> fst (geocodeAll sampleEdge [] None [] [''A'', ''B'', ''C'']) =
     Inr ([\<lparr>lat = 0, lon = 0, corrected = ''A'', resolved_name = ''A''\<rparr>,
           \<lparr>lat = 0, lon = 1, corrected = ''B'', resolved_name = ''B''\<rparr>,
           \<lparr>lat = 0, lon = 9 / 10, corrected = ''C east'', resolved_name = ''C''\<rparr>],
          Some (0, 9 / 10))
   \<and> fst (geocodeStopSequence sampleNominatim freshGeo [''A'', ''B'', ''C'']) =
     [Some \<lparr>lat = 0, lon = 0, corrected = ''A''\<rparr>,
      Some \<lparr>lat = 0, lon = 1, corrected = ''B''\<rparr>,
      Some \<lparr>lat = 0, lon = 1 / 10, corrected = ''C west''\<rparr>]"
  by (intro conjI) (rule edge_AB, rule edge_ABC, rule client_ABC)

text \<open>
  The anchors in general. In the client's \<open>geocodeStopSequence\<close> the anchor after any
  number of stops is the first resolved stop among them (none while none is resolved),
  so it is set once and held; each stop is resolved by \<open>geocodeStop\<close> with that anchor.
  In the edge function's loop the anchor after any number of stops is the place of the
  last stop resolved among them, and the next stop is geocoded with that anchor: it
  moves with every stop that resolves.
\<close>

lemma anchor_of_each_loop:
  "fst (snd (sequenceLoop nominatim st (take i names)))
     = firstResolved (take i (fst (geocodeStopSequence nominatim st names)))
   \<and> (i < length names \<longrightarrow>
        fst (geocodeStopSequence nominatim st names) ! i =
          fst (geocodeStop nominatim (snd (snd (sequenceLoop nominatim st (take i names))))
                 (names ! i)
                 (firstResolved (take i (fst (geocodeStopSequence nominatim st names))))))
   \<and> (fst (geocodeAll env [] None calls (take j stopList)) = Inr (resolvedStops, anchor) \<longrightarrow>
        anchor = lastPlace resolvedStops)
   \<and> (fst (geocodeAll env [] None calls (take j stopList)) = Inr (resolvedStops, anchor)
        \<and> j < length stopList \<longrightarrow>
        geocodeAll env [] None calls (take (Suc j) stopList)
          = geocodeAll env resolvedStops (lastPlace resolvedStops)
              (snd (geocodeAll env [] None calls (take j stopList))) [stopList ! j])"
proof (intro conjI impI)
  show "fst (snd (sequenceLoop nominatim st (take i names)))
     = firstResolved (take i (fst (geocodeStopSequence nominatim st names)))"
    by (rule client_anchor)
  show "fst (geocodeStopSequence nominatim st names) ! i =
          fst (geocodeStop nominatim (snd (snd (sequenceLoop nominatim st (take i names))))
                 (names ! i)
                 (firstResolved (take i (fst (geocodeStopSequence nominatim st names)))))"
    if "i < length names"
    using that by (rule client_result_at)
  show "anchor = lastPlace resolvedStops"
    if "fst (geocodeAll env [] None calls (take j stopList)) = Inr (resolvedStops, anchor)"
    by (rule geocodeAll_anchor [of None "[]", OF _ that]) (simp add: lastPlace_def)
  show "geocodeAll env [] None calls (take (Suc j) stopList)
          = geocodeAll env resolvedStops (lastPlace resolvedStops)
              (snd (geocodeAll env [] None calls (take j stopList))) [stopList ! j]"
    if h: "fst (geocodeAll env [] None calls (take j stopList)) = Inr (resolvedStops, anchor)
        \<and> j < length stopList"
  proof -
    obtain c where g: "geocodeAll env [] None calls (take j stopList)
        = (Inr (resolvedStops, anchor), c)"
      using h by (cases "geocodeAll env [] None calls (take j stopList)") auto
    have a: "anchor = lastPlace resolvedStops"
      by (rule geocodeAll_anchor [of None "[]" env calls "take j stopList"])
         (simp_all add: lastPlace_def g)
    have "take (Suc j) stopList = take j stopList @ [stopList ! j]"
      using h by (simp add: take_Suc_conv_app_nth)
    then have "geocodeAll env [] None calls (take (Suc j) stopList)
        = geocodeAll env resolvedStops anchor c [stopList ! j]"
      by (simp only: geocodeAll_append g prod.case sum.case)
    then show ?thesis using a g by simp
  qed
qed

lemma anchor_of_each_loop_example:
  "fst (geocodeStop sampleNominatim
            (snd (snd (sequenceLoop sampleNominatim freshGeo (take 2 [''A'', ''B'', ''C'']))))
            ''C'' (Some \<lparr>lat = 0, lon = 0, corrected = ''A''\<rparr>))
       = Some \<lparr>lat = 0, lon = 1 / 10, corrected = ''C west''\<rparr>"
proof -
  let ?names = "[''A'', ''B'', ''C'']"
  have l: "(2 :: nat) < length ?names" by simp
  have r: "fst (geocodeStopSequence sampleNominatim freshGeo ?names) ! 2
       = Some \<lparr>lat = 0, lon = 1 / 10, corrected = ''C west''\<rparr>"
    by (simp add: client_ABC)
  have f: "firstResolved (take 2 (fst (geocodeStopSequence sampleNominatim freshGeo ?names)))
       = Some \<lparr>lat = 0, lon = 0, corrected = ''A''\<rparr>"
    by (simp add: client_ABC numeral_2_eq_2)
  show ?thesis
    using anchor_of_each_loop [where nominatim = sampleNominatim and st = freshGeo
        and names = ?names and i = 2, THEN conjunct2, THEN conjunct1] l r f
    by simp
qed

section \<open>Properties of the edge function\<close>
















lemma routeAndStore_refused:
  assumes "2 \<le> length resolvedStops" "router env resolvedStops = Inr routes" "routes \<noteq> []"
    "geometry (routes ! 0) = Some coordinates" "kvAvailable env" "kvSetError env = Some e"
  shows "fst (routeAndStore env kv b cacheKey resolvedStops calls) = Throw e"
    "fst (snd (routeAndStore env kv b cacheKey resolvedStops calls)) = kv"
  using assms by (simp_all add: routeAndStore_def Let_def)




















subsection \<open>The durable cache of the edge function\<close>























end
